theory Spec2Isabelle
  imports Complex_Main "HOL-Library.FSet"
begin

section \<open>Python values used by the generator\<close>

text \<open>
  The program is \<^verbatim>\<open>university_database_generator.py\<close>: one class,
  \<^verbatim>\<open>UniversityDatabaseManager\<close>, whose methods create four SQLite tables and fill
  them with random rows. Strings are byte lists; \<^verbatim>\<open>str.lower\<close> and
  \<^verbatim>\<open>str.upper\<close> are modelled on the ASCII letters and leave every other byte alone.
\<close>

definition lower_char :: "char \<Rightarrow> char" where
  "lower_char c =
     (let n = (of_char c :: nat) in if 65 \<le> n \<and> n \<le> 90 then char_of (n + 32) else c)"

definition upper_char :: "char \<Rightarrow> char" where
  "upper_char c =
     (let n = (of_char c :: nat) in if 97 \<le> n \<and> n \<le> 122 then char_of (n - 32) else c)"

definition lower :: "string \<Rightarrow> string" where
  "lower s = map lower_char s"

definition upper :: "string \<Rightarrow> string" where
  "upper s = map upper_char s"

definition digit :: "nat \<Rightarrow> char" where
  "digit d = char_of (48 + d)"

text \<open>\<^verbatim>\<open>str(n)\<close> for a non-negative integer: its decimal digits.\<close>

fun str_nat :: "nat \<Rightarrow> string" where
  "str_nat n = (if n < 10 then [digit n] else str_nat (n div 10) @ [digit (n mod 10)])"

declare str_nat.simps [simp del]

definition py_str :: "int \<Rightarrow> string" where
  "py_str i = (if i < 0 then CHR ''-'' # str_nat (nat (- i)) else str_nat (nat i))"

text \<open>Reading a decimal numeral back; used to show that \<^const>\<open>str_nat\<close> is injective.\<close>

definition digit_val :: "char \<Rightarrow> nat" where
  "digit_val c = of_char c - 48"

definition nat_of_str :: "string \<Rightarrow> nat" where
  "nat_of_str s = foldl (\<lambda>a c. 10 * a + digit_val c) 0 s"

subsection \<open>Exceptions\<close>

text \<open>
  The exceptions the methods can raise, each with its message.
  \<^verbatim>\<open>IntegrityError\<close>, \<^verbatim>\<open>OperationalError\<close> and \<^verbatim>\<open>ProgrammingError\<close>
  are subclasses of \<^verbatim>\<open>sqlite3.Error\<close>; \<^verbatim>\<open>ValueError\<close> (raised by
  \<^verbatim>\<open>random.sample\<close>) and \<^verbatim>\<open>AttributeError\<close> (a method called on
  \<^verbatim>\<open>None\<close>) are not.
\<close>

datatype py_error =
    IntegrityError string
  | OperationalError string
  | ProgrammingError string
  | ValueError string
  | AttributeError string

fun is_sqlite_error :: "py_error \<Rightarrow> bool" where
  "is_sqlite_error (IntegrityError _) = True"
| "is_sqlite_error (OperationalError _) = True"
| "is_sqlite_error (ProgrammingError _) = True"
| "is_sqlite_error (ValueError _) = False"
| "is_sqlite_error (AttributeError _) = False"

fun message :: "py_error \<Rightarrow> string" where
  "message (IntegrityError s) = s"
| "message (OperationalError s) = s"
| "message (ProgrammingError s) = s"
| "message (ValueError s) = s"
| "message (AttributeError s) = s"

datatype outcome = Done | Raised py_error

subsection \<open>The random module\<close>

text \<open>
  The generator of the \<^verbatim>\<open>random\<close> module is a stream of raw draws, any natural
  numbers; every theorem below holds for every stream. \<^verbatim>\<open>randbelow(n)\<close> reduces a
  draw modulo \<open>n\<close>, \<^verbatim>\<open>random()\<close> is a multiple of \<open>1 / 2 ^ 53\<close> below one.
  Floating-point numbers are exact rationals here: \<^verbatim>\<open>uniform\<close> is computed without
  rounding error, and \<^verbatim>\<open>round(x, 2)\<close> is the nearest multiple of a hundredth, ties
  to even.
\<close>

type_synonym rng = "nat \<Rightarrow> nat"

definition draw :: "rng \<Rightarrow> nat \<times> rng" where
  "draw g = (g 0, g \<circ> Suc)"

definition randbelow :: "nat \<Rightarrow> rng \<Rightarrow> nat \<times> rng" where
  "randbelow n g = (let (r, g') = draw g in (r mod n, g'))"

definition randint :: "int \<Rightarrow> int \<Rightarrow> rng \<Rightarrow> int \<times> rng" where
  "randint a b g = (let (r, g') = randbelow (nat (b - a + 1)) g in (a + int r, g'))"

text \<open>
  \<^verbatim>\<open>random.choice(seq)\<close> is \<^verbatim>\<open>seq[randbelow(len(seq))]\<close>. The program calls it on
  literal, non-empty lists only.
\<close>

definition choice :: "'a list \<Rightarrow> rng \<Rightarrow> 'a \<times> rng" where
  "choice seq g = (let (j, g') = randbelow (length seq) g in (seq ! j, g'))"

definition random_unit :: "rng \<Rightarrow> rat \<times> rng" where
  "random_unit g = (let (r, g') = draw g in (of_int (int r mod 2 ^ 53) / 2 ^ 53, g'))"

definition uniform :: "rat \<Rightarrow> rat \<Rightarrow> rng \<Rightarrow> rat \<times> rng" where
  "uniform a b g = (let (u, g') = random_unit g in (a + (b - a) * u, g'))"

definition round_half_even :: "rat \<Rightarrow> int" where
  "round_half_even x =
     (let f = \<lfloor>x\<rfloor>; d = x - of_int f
      in if d < 1 / 2 then f else if 1 / 2 < d then f + 1 else if even f then f else f + 1)"

definition round2 :: "rat \<Rightarrow> rat" where
  "round2 x = of_int (round_half_even (x * 100)) / 100"

text \<open>
  \<^verbatim>\<open>random.sample(population, k)\<close> raises \<^verbatim>\<open>ValueError\<close> unless
  \<open>0 \<le> k \<le> len(population)\<close>. Otherwise it copies the population into a pool and, \<open>k\<close>
  times, takes the element at a random position of the live part of the pool and moves
  the last live element into the hole. (CPython switches to picking untried positions of
  the population itself when the population has more than 21 elements and \<open>k \<le> 5\<close>; the
  pool method is the model at every size.)
\<close>

fun sample_pool :: "'a list \<Rightarrow> nat \<Rightarrow> rng \<Rightarrow> 'a list \<times> rng" where
  "sample_pool pool 0 g = ([], g)"
| "sample_pool pool (Suc k) g =
     (let (j, g1) = randbelow (length pool) g;
          (rest, g2) = sample_pool (butlast (pool[j := last pool])) k g1
      in (pool ! j # rest, g2))"

definition sample :: "'a list \<Rightarrow> int \<Rightarrow> rng \<Rightarrow> (py_error + 'a list) \<times> rng" where
  "sample population k g =
     (if 0 \<le> k \<and> k \<le> int (length population)
      then (let (xs, g') = sample_pool population (nat k) g in (Inr xs, g'))
      else (Inl (ValueError ''Sample larger than population or is negative''), g))"

section \<open>The database\<close>

text \<open>
  Rows are the tuples the program builds, with the columns of \<^verbatim>\<open>create_tables\<close>.
  A table with an \<^verbatim>\<open>AUTOINCREMENT\<close> key stores each row with its key.
\<close>

type_synonym date = "nat \<times> nat \<times> nat"

record student =
  first_name :: string
  last_name :: string
  gender :: string
  date_of_birth :: date
  email :: string
  enrollment_status :: string
  total_credits :: int
  gpa :: rat

type_synonym department = "string \<times> int"

record course =
  course_id :: string
  course_name :: string
  department_id :: int
  credit_hours :: int
  course_level :: string

record enrollment =
  enr_student_id :: int
  enr_course_id :: string
  semester :: string
  academic_year :: int
  grade :: rat

text \<open>A table that does not exist is \<open>None\<close>.\<close>

record db =
  Students :: "(int \<times> student) list option"
  Departments :: "(int \<times> department) list option"
  Courses :: "course list option"
  Enrollments :: "(int \<times> enrollment) list option"

text \<open>
  The key of a new row of an \<^verbatim>\<open>AUTOINCREMENT\<close> table is one more than the largest
  key so far. (SQLite takes the larger of that and the table's entry in
  \<^verbatim>\<open>sqlite_sequence\<close>; the two agree here, since the program deletes no row and
  dropping a table drops its entry.)
\<close>

definition next_id :: "(int \<times> 'a) list \<Rightarrow> int" where
  "next_id rows = (if rows = [] then 1 else Max (set (map fst rows)) + 1)"

subsection \<open>INSERT, one row, with the constraints of the schema\<close>

text \<open>
  Foreign keys are declared but SQLite does not enforce them unless
  \<^verbatim>\<open>PRAGMA foreign_keys\<close> is switched on, which the program never does.
\<close>

definition insert_department :: "(int \<times> department) list \<Rightarrow> department \<Rightarrow> py_error + (int \<times> department) list" where
  "insert_department rows d =
     (if fst d \<in> set (map (fst \<circ> snd) rows)
      then Inl (IntegrityError ''UNIQUE constraint failed: Departments.department_name'')
      else Inr (rows @ [(next_id rows, d)]))"

definition insert_course :: "course list \<Rightarrow> course \<Rightarrow> py_error + course list" where
  "insert_course rows c =
     (if course_level c \<notin> set [''Introductory'', ''Intermediate'', ''Advanced'']
      then Inl (IntegrityError ''CHECK constraint failed: course_level'')
      else if course_id c \<in> set (map course_id rows)
      then Inl (IntegrityError ''UNIQUE constraint failed: Courses.course_id'')
      else Inr (rows @ [c]))"

definition insert_student :: "(int \<times> student) list \<Rightarrow> student \<Rightarrow> py_error + (int \<times> student) list" where
  "insert_student rows s =
     (if gender s \<notin> set [''Male'', ''Female'', ''Other'']
      then Inl (IntegrityError ''CHECK constraint failed: gender'')
      else if enrollment_status s \<notin> set [''Active'', ''Inactive'', ''Graduated'', ''Suspended'']
      then Inl (IntegrityError ''CHECK constraint failed: enrollment_status'')
      else if \<not> (0 \<le> gpa s \<and> gpa s \<le> 4)
      then Inl (IntegrityError ''CHECK constraint failed: gpa'')
      else if email s \<in> set (map (email \<circ> snd) rows)
      then Inl (IntegrityError ''UNIQUE constraint failed: Students.email'')
      else Inr (rows @ [(next_id rows, s)]))"

definition enrollment_key :: "enrollment \<Rightarrow> int \<times> string \<times> string \<times> int" where
  "enrollment_key e = (enr_student_id e, enr_course_id e, semester e, academic_year e)"

definition insert_enrollment :: "(int \<times> enrollment) list \<Rightarrow> enrollment \<Rightarrow> py_error + (int \<times> enrollment) list" where
  "insert_enrollment rows e =
     (if semester e \<notin> set [''Fall'', ''Spring'', ''Summer'']
      then Inl (IntegrityError ''CHECK constraint failed: semester'')
      else if \<not> (0 \<le> grade e \<and> grade e \<le> 4)
      then Inl (IntegrityError ''CHECK constraint failed: grade'')
      else if enrollment_key e \<in> set (map (enrollment_key \<circ> snd) rows)
      then Inl (IntegrityError ''UNIQUE constraint failed: Enrollments.student_id, Enrollments.course_id, Enrollments.semester, Enrollments.academic_year'')
      else Inr (rows @ [(next_id rows, e)]))"

subsection \<open>The connection\<close>

text \<open>
  A connection has its own view of the database, which holds the changes not yet
  committed. An \<^verbatim>\<open>INSERT\<close> opens a transaction when none is open. A
  \<^verbatim>\<open>DROP\<close> or \<^verbatim>\<open>CREATE\<close> opens none: outside a transaction it is
  written to the file at once, inside one it waits for the commit. Closing the
  connection drops what was not committed.
\<close>

record connection =
  view :: db
  in_txn :: bool
  is_open :: bool

text \<open>
  The fields \<^verbatim>\<open>fake\<close> of the manager is a Faker instance: three streams of values
  still to come.
\<close>

record faker =
  first_names :: "nat \<Rightarrow> string"
  last_names :: "nat \<Rightarrow> string"
  dates_of_birth :: "nat \<Rightarrow> date"

text \<open>
  The state a method sees: the fields of the manager (\<^verbatim>\<open>db_name\<close>,
  \<^verbatim>\<open>fake\<close>, \<^verbatim>\<open>conn\<close> with its cursor, \<^verbatim>\<open>used_emails\<close>) and the
  part of the process and its surroundings the methods touch: the generator of the
  \<^verbatim>\<open>random\<close> module, the committed content of the database file, whether the file
  can be opened, and the lines printed so far.
\<close>

record manager =
  db_name :: string
  fake :: faker
  conn :: "connection option"
  used_emails :: "string fset"
  rng :: rng
  disk :: db
  openable :: bool
  stdout :: "string list"

definition UniversityDatabaseManager :: "string \<Rightarrow> faker \<Rightarrow> rng \<Rightarrow> db \<Rightarrow> bool \<Rightarrow> string list \<Rightarrow> manager" where
  "UniversityDatabaseManager name fk g file ok out =
     \<lparr>db_name = name, fake = fk, conn = None, used_emails = {||},
      rng = g, disk = file, openable = ok, stdout = out\<rparr>"

definition print :: "string \<Rightarrow> manager \<Rightarrow> outcome \<times> manager" where
  "print line m = (Done, m\<lparr>stdout := stdout m @ [line]\<rparr>)"

text \<open>Running methods one after the other stops at the first exception.\<close>

fun run_all :: "(manager \<Rightarrow> outcome \<times> manager) list \<Rightarrow> manager \<Rightarrow> outcome \<times> manager" where
  "run_all [] m = (Done, m)"
| "run_all (f # fs) m = (case f m of (Done, m') \<Rightarrow> run_all fs m' | (Raised e, m') \<Rightarrow> (Raised e, m'))"

definition create_connection :: "manager \<Rightarrow> outcome \<times> manager" where
  "create_connection m =
     (if openable m
      then (Done, m\<lparr>conn := Some \<lparr>view = disk m, in_txn = False, is_open = True\<rparr>\<rparr>)
      else (Raised (OperationalError ''unable to open database file''), m))"

text \<open>
  \<^verbatim>\<open>self.cursor\<close> is \<open>None\<close> until \<^verbatim>\<open>create_connection\<close> has run; a cursor of a
  closed connection refuses every statement.
\<close>

definition cursor :: "manager \<Rightarrow> py_error + connection" where
  "cursor m =
     (case conn m of
        None \<Rightarrow> Inl (AttributeError ''NoneType object has no attribute execute'')
      | Some c \<Rightarrow>
          if is_open c then Inr c
          else Inl (ProgrammingError ''Cannot operate on a closed database.''))"

definition commit :: "manager \<Rightarrow> outcome \<times> manager" where
  "commit m =
     (case conn m of
        None \<Rightarrow> (Raised (AttributeError ''NoneType object has no attribute commit''), m)
      | Some c \<Rightarrow>
          if is_open c then (Done, m\<lparr>conn := Some (c\<lparr>in_txn := False\<rparr>), disk := view c\<rparr>)
          else (Raised (ProgrammingError ''Cannot operate on a closed database.''), m))"

definition close :: "manager \<Rightarrow> manager" where
  "close m = (case conn m of None \<Rightarrow> m | Some c \<Rightarrow> m\<lparr>conn := Some (c\<lparr>is_open := False\<rparr>)\<rparr>)"

text \<open>A schema statement: it changes the view, and the file too outside a transaction.\<close>

definition execute_ddl :: "(db \<Rightarrow> py_error + db) \<Rightarrow> manager \<Rightarrow> outcome \<times> manager" where
  "execute_ddl stmt m =
     (case cursor m of
        Inl e \<Rightarrow> (Raised e, m)
      | Inr c \<Rightarrow>
          (case stmt (view c) of
             Inl e \<Rightarrow> (Raised e, m)
           | Inr v \<Rightarrow> (Done, m\<lparr>conn := Some (c\<lparr>view := v\<rparr>),
                                disk := (if in_txn c then disk m else v)\<rparr>)))"

text \<open>
  \<^verbatim>\<open>executemany\<close> with an \<^verbatim>\<open>INSERT\<close>: the rows go in one by one, and the first
  one that breaks a constraint raises; the rows before it stay in the view.
\<close>

fun insert_rows :: "('t \<Rightarrow> 'r \<Rightarrow> py_error + 't) \<Rightarrow> 't \<Rightarrow> 'r list \<Rightarrow> outcome \<times> 't" where
  "insert_rows ins t [] = (Done, t)"
| "insert_rows ins t (r # rs) =
     (case ins t r of Inl e \<Rightarrow> (Raised e, t) | Inr t' \<Rightarrow> insert_rows ins t' rs)"

definition executemany ::
  "string \<Rightarrow> (db \<Rightarrow> 't option) \<Rightarrow> (db \<Rightarrow> 't \<Rightarrow> db) \<Rightarrow> ('t \<Rightarrow> 'r \<Rightarrow> py_error + 't) \<Rightarrow> 'r list
     \<Rightarrow> manager \<Rightarrow> outcome \<times> manager" where
  "executemany name get put ins rows m =
     (case cursor m of
        Inl e \<Rightarrow> (Raised e, m)
      | Inr c \<Rightarrow>
          (case get (view c) of
             None \<Rightarrow> (Raised (OperationalError (''no such table: '' @ name)), m)
           | Some t \<Rightarrow>
               (let (r, t') = insert_rows ins t rows
                in (r, m\<lparr>conn := Some (c\<lparr>view := put (view c) t', in_txn := True\<rparr>)\<rparr>))))"

text \<open>\<^verbatim>\<open>SELECT ... FROM name\<close> followed by \<^verbatim>\<open>fetchall\<close>: the rows, in key order.\<close>

definition select_all :: "string \<Rightarrow> (db \<Rightarrow> 't option) \<Rightarrow> manager \<Rightarrow> py_error + 't" where
  "select_all name get m =
     (case cursor m of
        Inl e \<Rightarrow> Inl e
      | Inr c \<Rightarrow>
          (case get (view c) of
             None \<Rightarrow> Inl (OperationalError (''no such table: '' @ name))
           | Some t \<Rightarrow> Inr t))"

section \<open>The methods of the manager\<close>

subsection \<open>generate_unique_email\<close>

definition suffixed_email :: "string \<Rightarrow> nat \<Rightarrow> string" where
  "suffixed_email base_email counter = base_email @ str_nat counter @ ''@university.edu''"

text \<open>The \<^verbatim>\<open>while\<close> loop, on the variables \<^verbatim>\<open>email\<close> (here \<open>candidate\<close>) and
  \<^verbatim>\<open>counter\<close>.\<close>

function email_loop :: "string fset \<Rightarrow> string \<Rightarrow> string \<Rightarrow> nat \<Rightarrow> string" where
  "email_loop used base_email candidate counter =
     (if candidate |\<in>| used
      then email_loop used base_email (suffixed_email base_email counter) (counter + 1)
      else candidate)"
  by pat_completeness auto

text \<open>
  The loop ends because the suffixes tried are pairwise different strings and the set of
  issued emails is finite: \<open>pending\<close> is the set of counters, from the current one on,
  whose address is taken.
\<close>

definition pending :: "string fset \<Rightarrow> string \<Rightarrow> nat \<Rightarrow> nat set" where
  "pending used base_email counter = {k. counter \<le> k \<and> suffixed_email base_email k |\<in>| used}"

lemma digit_val_digit: "d < 10 \<Longrightarrow> digit_val (digit d) = d"
  by (simp add: digit_val_def digit_def)

lemma nat_of_str_snoc: "nat_of_str (s @ [c]) = 10 * nat_of_str s + digit_val c"
  by (simp add: nat_of_str_def)

lemma nat_of_str_str_nat: "nat_of_str (str_nat n) = n"
proof (induction n rule: str_nat.induct)
  case (1 n)
  show ?case
  proof (cases "n < 10")
    case True
    then show ?thesis
      by (simp add: str_nat.simps [of n] nat_of_str_def digit_val_digit)
  next
    case False
    with 1 show ?thesis
      by (simp add: str_nat.simps [of n] nat_of_str_snoc digit_val_digit)
  qed
qed

lemma str_nat_inj: "str_nat a = str_nat b \<Longrightarrow> a = b"
  by (metis nat_of_str_str_nat)

lemma suffixed_email_inj: "suffixed_email b i = suffixed_email b j \<Longrightarrow> i = j"
  by (simp add: suffixed_email_def str_nat_inj)

lemma finite_pending: "finite (pending used b c)"
proof -
  have "inj_on (suffixed_email b) (pending used b c)"
    by (auto simp: inj_on_def dest: suffixed_email_inj)
  moreover have "suffixed_email b ` pending used b c \<subseteq> fset used"
    by (auto simp: pending_def)
  ultimately show ?thesis
    by (meson finite_fset finite_subset finite_imageD)
qed

lemma pending_step:
  "card (pending used b (Suc c)) + (if suffixed_email b c |\<in>| used then 1 else 0)
     = card (pending used b c)"
proof (cases "suffixed_email b c |\<in>| used")
  case True
  have eq: "pending used b c = insert c (pending used b (Suc c))"
    using True by (auto simp: pending_def le_Suc_eq)
  have "c \<notin> pending used b (Suc c)" by (simp add: pending_def)
  then show ?thesis using True finite_pending [of used b "Suc c"] by (simp add: eq)
next
  case False
  have "pending used b c = pending used b (Suc c)"
    using False by (auto simp: pending_def le_Suc_eq Suc_le_eq) (metis le_neq_implies_less)
  then show ?thesis using False by simp
qed

termination email_loop
proof (relation "measure (\<lambda>(used, b, e, c). card (pending used b c) + (if e |\<in>| used then 1 else 0))")
  show "wf (measure (\<lambda>(used, b, e, c). card (pending used b c) + (if e |\<in>| used then 1 else 0)))"
    by simp
next
  fix used :: "string fset" and base_email candidate :: string and counter :: nat
  assume "candidate |\<in>| used"
  then show "((used, base_email, suffixed_email base_email counter, counter + 1),
              (used, base_email, candidate, counter))
         \<in> measure (\<lambda>(used, b, e, c). card (pending used b c) + (if e |\<in>| used then 1 else 0))"
    using pending_step [of used base_email counter] by simp
qed

declare email_loop.simps [simp del]

definition generate_unique_email :: "manager \<Rightarrow> string \<Rightarrow> string \<Rightarrow> string \<times> manager" where
  "generate_unique_email m first_nm last_nm =
     (let base_email = lower first_nm @ ''.'' @ lower last_nm;
          issued = email_loop (used_emails m) base_email (base_email @ ''@university.edu'') 1
      in (issued, m\<lparr>used_emails := finsert issued (used_emails m)\<rparr>))"

subsection \<open>create_tables\<close>

text \<open>\<^verbatim>\<open>DROP TABLE IF EXISTS\<close>: a name that is no table is left alone.\<close>

definition drop_table_if_exists :: "string \<Rightarrow> db \<Rightarrow> py_error + db" where
  "drop_table_if_exists name v =
     Inr (if name = ''Enrollments'' then v\<lparr>Enrollments := None\<rparr>
          else if name = ''Courses'' then v\<lparr>Courses := None\<rparr>
          else if name = ''Departments'' then v\<lparr>Departments := None\<rparr>
          else if name = ''Students'' then v\<lparr>Students := None\<rparr>
          else v)"

text \<open>\<^verbatim>\<open>CREATE TABLE\<close> fails on a table that exists; the new table is empty.\<close>

definition create_Students :: "db \<Rightarrow> py_error + db" where
  "create_Students v =
     (case Students v of
        Some _ \<Rightarrow> Inl (OperationalError ''table Students already exists'')
      | None \<Rightarrow> Inr (v\<lparr>Students := Some []\<rparr>))"

definition create_Departments :: "db \<Rightarrow> py_error + db" where
  "create_Departments v =
     (case Departments v of
        Some _ \<Rightarrow> Inl (OperationalError ''table Departments already exists'')
      | None \<Rightarrow> Inr (v\<lparr>Departments := Some []\<rparr>))"

definition create_Courses :: "db \<Rightarrow> py_error + db" where
  "create_Courses v =
     (case Courses v of
        Some _ \<Rightarrow> Inl (OperationalError ''table Courses already exists'')
      | None \<Rightarrow> Inr (v\<lparr>Courses := Some []\<rparr>))"

definition create_Enrollments :: "db \<Rightarrow> py_error + db" where
  "create_Enrollments v =
     (case Enrollments v of
        Some _ \<Rightarrow> Inl (OperationalError ''table Enrollments already exists'')
      | None \<Rightarrow> Inr (v\<lparr>Enrollments := Some []\<rparr>))"

definition create_tables :: "manager \<Rightarrow> outcome \<times> manager" where
  "create_tables m =
     run_all
       (map (\<lambda>table. execute_ddl (drop_table_if_exists table))
            [''Enrollments'', ''Courses'', ''Departments'', ''Students'']
        @ [execute_ddl create_Students, execute_ddl create_Departments,
           execute_ddl create_Courses, execute_ddl create_Enrollments]) m"

subsection \<open>generate_departments and generate_courses\<close>

definition generate_departments :: "manager \<Rightarrow> outcome \<times> manager" where
  "generate_departments m =
     executemany ''Departments'' Departments (\<lambda>v t. v\<lparr>Departments := Some t\<rparr>) insert_department
       [(''Computer Science'', 1985), (''Mathematics'', 1970), (''Physics'', 1960),
        (''Biology'', 1975), (''Chemistry'', 1965), (''Engineering'', 1980),
        (''Economics'', 1990)] m"

text \<open>The inner loop of \<^verbatim>\<open>generate_courses\<close>, over the levels, for one department.\<close>

fun level_courses :: "int \<Rightarrow> string \<Rightarrow> string list \<Rightarrow> rng \<Rightarrow> course list \<times> rng" where
  "level_courses dept_id dept_name [] g = ([], g)"
| "level_courses dept_id dept_name (level # levels) g =
     (let (number, g1) = randint 100 999 g;
          (hours, g2) = choice [3, 4] g1;
          c = \<lparr>course_id = upper (take 3 dept_name) @ py_str number,
               course_name = dept_name @ '' '' @ level @ '' Course'',
               department_id = dept_id, credit_hours = hours, course_level = level\<rparr>;
          (rest, g3) = level_courses dept_id dept_name levels g2
      in (c # rest, g3))"

text \<open>The outer loop, over the rows of \<^verbatim>\<open>Departments\<close>.\<close>

fun department_courses :: "(int \<times> department) list \<Rightarrow> string list \<Rightarrow> rng \<Rightarrow> course list \<times> rng" where
  "department_courses [] levels g = ([], g)"
| "department_courses ((dept_id, dept_name, year) # ds) levels g =
     (let (cs, g1) = level_courses dept_id dept_name levels g;
          (rest, g2) = department_courses ds levels g1
      in (cs @ rest, g2))"

definition course_levels :: "string list" where
  "course_levels = [''Introductory'', ''Intermediate'', ''Advanced'']"

definition generate_courses :: "manager \<Rightarrow> outcome \<times> manager" where
  "generate_courses m =
     (case select_all ''Departments'' Departments m of
        Inl e \<Rightarrow> (Raised e, m)
      | Inr departments \<Rightarrow>
          (let (courses, g) = department_courses departments course_levels (rng m)
           in executemany ''Courses'' Courses (\<lambda>v t. v\<lparr>Courses := Some t\<rparr>) insert_course
                courses (m\<lparr>rng := g\<rparr>)))"

subsection \<open>generate_students\<close>

definition fake_first_name :: "faker \<Rightarrow> string \<times> faker" where
  "fake_first_name fk = (first_names fk 0, fk\<lparr>first_names := first_names fk \<circ> Suc\<rparr>)"

definition fake_last_name :: "faker \<Rightarrow> string \<times> faker" where
  "fake_last_name fk = (last_names fk 0, fk\<lparr>last_names := last_names fk \<circ> Suc\<rparr>)"

definition fake_date_of_birth :: "faker \<Rightarrow> date \<times> faker" where
  "fake_date_of_birth fk = (dates_of_birth fk 0, fk\<lparr>dates_of_birth := dates_of_birth fk \<circ> Suc\<rparr>)"

definition gender_options :: "string list" where
  "gender_options = [''Male'', ''Female'', ''Other'']"

definition status_options :: "string list" where
  "status_options = [''Active'', ''Inactive'', ''Graduated'', ''Suspended'']"

text \<open>One pass of the loop body: the tuple appended to \<^verbatim>\<open>students\<close>.\<close>

definition new_student :: "manager \<Rightarrow> student \<times> manager" where
  "new_student m =
     (let (first_nm, fk1) = fake_first_name (fake m);
          (last_nm, fk2) = fake_last_name fk1;
          (sex, g1) = choice gender_options (rng m);
          (dob, fk3) = fake_date_of_birth fk2;
          (issued, m1) = generate_unique_email m first_nm last_nm;
          (status, g2) = choice status_options g1;
          (credits, g3) = randint 0 120 g2;
          (x, g4) = uniform 2 4 g3
      in (\<lparr>first_name = first_nm, last_name = last_nm, gender = sex, date_of_birth = dob,
           email = issued, enrollment_status = status, total_credits = credits,
           gpa = round2 x\<rparr>,
          m1\<lparr>fake := fk3, rng := g4\<rparr>))"

fun students_loop :: "nat \<Rightarrow> manager \<Rightarrow> student list \<times> manager" where
  "students_loop 0 m = ([], m)"
| "students_loop (Suc n) m =
     (let (s, m1) = new_student m;
          (rest, m2) = students_loop n m1
      in (s # rest, m2))"

definition generate_students :: "nat \<Rightarrow> manager \<Rightarrow> outcome \<times> manager" where
  "generate_students num_students m =
     (let (students, m1) = students_loop num_students m
      in executemany ''Students'' Students (\<lambda>v t. v\<lparr>Students := Some t\<rparr>) insert_student
           students m1)"

subsection \<open>generate_enrollments\<close>

definition semesters :: "string list" where
  "semesters = [''Fall'', ''Spring'', ''Summer'']"

text \<open>\<^verbatim>\<open>list(range(2018, 2024))\<close>: the years 2018 to 2023.\<close>

definition academic_years :: "int list" where
  "academic_years = [2018 .. 2023]"

text \<open>The inner loop, over the courses sampled for one student.\<close>

fun course_enrollments :: "int \<Rightarrow> string list \<Rightarrow> rng \<Rightarrow> enrollment list \<times> rng" where
  "course_enrollments sid [] g = ([], g)"
| "course_enrollments sid (cid # enrolled_courses) g =
     (let (sem, g1) = choice semesters g;
          (year, g2) = choice academic_years g1;
          (x, g3) = uniform 2 4 g2;
          (rest, g4) = course_enrollments sid enrolled_courses g3
      in (\<lparr>enr_student_id = sid, enr_course_id = cid, semester = sem, academic_year = year,
           grade = round2 x\<rparr> # rest, g4))"

text \<open>The outer loop, over the students; \<^verbatim>\<open>random.sample\<close> may raise.\<close>

fun student_enrollments :: "int list \<Rightarrow> string list \<Rightarrow> rng \<Rightarrow> (py_error + enrollment list) \<times> rng" where
  "student_enrollments [] courses g = (Inr [], g)"
| "student_enrollments (sid # students) courses g =
     (let (num_courses, g1) = randint 3 5 g
      in case sample courses num_courses g1 of
           (Inl e, g2) \<Rightarrow> (Inl e, g2)
         | (Inr enrolled_courses, g2) \<Rightarrow>
             (let (es, g3) = course_enrollments sid enrolled_courses g2
              in case student_enrollments students courses g3 of
                   (Inl e, g4) \<Rightarrow> (Inl e, g4)
                 | (Inr rest, g4) \<Rightarrow> (Inr (es @ rest), g4)))"

definition generate_enrollments :: "manager \<Rightarrow> outcome \<times> manager" where
  "generate_enrollments m =
     (case select_all ''Students'' Students m of
        Inl e \<Rightarrow> (Raised e, m)
      | Inr student_rows \<Rightarrow>
          (case select_all ''Courses'' Courses m of
             Inl e \<Rightarrow> (Raised e, m)
           | Inr course_rows \<Rightarrow>
               (case student_enrollments (map fst student_rows) (map course_id course_rows) (rng m) of
                  (Inl e, g) \<Rightarrow> (Raised e, m\<lparr>rng := g\<rparr>)
                | (Inr enrollments, g) \<Rightarrow>
                    executemany ''Enrollments'' Enrollments (\<lambda>v t. v\<lparr>Enrollments := Some t\<rparr>)
                      insert_enrollment enrollments (m\<lparr>rng := g\<rparr>))))"

subsection \<open>run_database_generation and main\<close>

text \<open>\<^verbatim>\<open>SELECT COUNT(*)\<close> on a table, printed after a label.\<close>

definition print_count :: "string \<Rightarrow> string \<Rightarrow> (db \<Rightarrow> 'r list option) \<Rightarrow> manager \<Rightarrow> outcome \<times> manager" where
  "print_count label name get m =
     (case select_all name get m of
        Inl e \<Rightarrow> (Raised e, m)
      | Inr rows \<Rightarrow> print (label @ str_nat (length rows)) m)"

text \<open>
  The body of the \<^verbatim>\<open>try\<close> block; \<^verbatim>\<open>generate_students\<close> is called with its
  default, 1200.
\<close>

definition run_stages :: "manager \<Rightarrow> outcome \<times> manager" where
  "run_stages m =
     run_all
       [create_connection, create_tables,
        generate_departments, commit,
        generate_courses, commit,
        generate_students 1200, commit,
        generate_enrollments, commit,
        print ''University Database generated successfully!'',
        print_count ''Total Students: '' ''Students'' Students,
        print_count ''Total Courses: '' ''Courses'' Courses,
        print_count ''Total Enrollments: '' ''Enrollments'' Enrollments] m"

text \<open>
  \<^verbatim>\<open>try: body  except sqlite3.Error as e: print(...)  finally: if self.conn: self.conn.close()\<close>,
  for any body: an exception of \<^verbatim>\<open>sqlite3\<close> is printed and the method returns, any
  other goes on to the caller, and the connection, when there is one, is closed either way.
\<close>

definition try_except_finally :: "(manager \<Rightarrow> outcome \<times> manager) \<Rightarrow> manager \<Rightarrow> outcome \<times> manager" where
  "try_except_finally body m =
     (case body m of
        (Done, m1) \<Rightarrow> (Done, close m1)
      | (Raised e, m1) \<Rightarrow>
          (if is_sqlite_error e
           then (case print (''Database error: '' @ message e) m1 of (r, m2) \<Rightarrow> (r, close m2))
           else (Raised e, close m1)))"

definition run_database_generation :: "manager \<Rightarrow> outcome \<times> manager" where
  "run_database_generation m = try_except_finally run_stages m"

text \<open>
  \<^verbatim>\<open>main\<close> builds a manager with the default file name and runs it; its arguments
  here are what it finds around it: the Faker instance it creates, the generator of the
  \<^verbatim>\<open>random\<close> module, the database file and the lines printed so far.
\<close>

definition main :: "faker \<Rightarrow> rng \<Rightarrow> db \<Rightarrow> bool \<Rightarrow> string list \<Rightarrow> outcome \<times> manager" where
  "main fk g file ok out =
     run_database_generation (UniversityDatabaseManager ''university_database.db'' fk g file ok out)"

text \<open>What every row of \<^verbatim>\<open>generate_enrollments\<close> is checked against below.\<close>

definition enrollment_ok :: "enrollment \<Rightarrow> bool" where
  "enrollment_ok e = (semester e \<in> set semesters \<and> academic_year e \<in> set academic_years \<and>
     2 \<le> grade e \<and> grade e \<le> 4 \<and> (\<exists>i. grade e = of_int i / 100))"

section \<open>Example states\<close>

text \<open>
  The inputs the worked examples below run on: a database file without tables, a Faker
  that always answers Ann Lee, and generators whose draws are known.
\<close>

definition no_tables :: db where
  "no_tables = \<lparr>Students = None, Departments = None, Courses = None, Enrollments = None\<rparr>"

definition ann_lee :: faker where
  "ann_lee = \<lparr>first_names = (\<lambda>i. ''Ann''), last_names = (\<lambda>i. ''Lee''),
              dates_of_birth = (\<lambda>i. (2000, 1, 1))\<rparr>"

definition example_manager :: manager where
  "example_manager = UniversityDatabaseManager ''example.db'' ann_lee (\<lambda>i. 5) no_tables True []"

definition taken_manager :: manager where
  "taken_manager = example_manager\<lparr>used_emails := {|''ann.lee@university.edu''|}\<rparr>"

definition example_student :: "string \<Rightarrow> student" where
  "example_student addr =
     \<lparr>first_name = ''Ann'', last_name = ''Lee'', gender = ''Other'', date_of_birth = (2000, 1, 1),
      email = addr, enrollment_status = ''Active'', total_credits = 5, gpa = 2\<rparr>"

definition example_course :: "string \<Rightarrow> course" where
  "example_course cid =
     \<lparr>course_id = cid, course_name = ''Physics Advanced Course'', department_id = 3,
      credit_hours = 3, course_level = ''Advanced''\<rparr>"

definition seeded_db :: db where
  "seeded_db =
     \<lparr>Students = Some [(1, example_student ''ann.lee@university.edu''),
                       (2, example_student ''ann.lee1@university.edu'')],
      Departments = Some [(3, ''Physics'', 1960)],
      Courses = Some (map example_course [''PHY101'', ''PHY102'', ''PHY103'', ''PHY104'', ''PHY105'']),
      Enrollments = Some []\<rparr>"

definition seeded_connection :: connection where
  "seeded_connection = \<lparr>view = seeded_db, in_txn = False, is_open = True\<rparr>"

definition seeded_manager :: manager where
  "seeded_manager = example_manager\<lparr>conn := Some seeded_connection, disk := seeded_db\<rparr>"

definition example_enrollment :: "int \<Rightarrow> string \<Rightarrow> enrollment" where
  "example_enrollment sid cid =
     \<lparr>enr_student_id = sid, enr_course_id = cid, semester = ''Summer'', academic_year = 2023,
      grade = 2\<rparr>"

section \<open>Properties\<close>

subsection \<open>Issued emails\<close>

lemma email_loop_fresh: "email_loop used b e c |\<notin>| used"
  by (induction used b e c rule: email_loop.induct) (simp add: email_loop.simps)

lemma email_loop_shape:
  "email_loop used b e c = e \<and> e |\<notin>| used \<or>
   (\<exists>k. c \<le> k \<and> email_loop used b e c = suffixed_email b k \<and> e |\<in>| used \<and>
        (\<forall>j. c \<le> j \<and> j < k \<longrightarrow> suffixed_email b j |\<in>| used))"
proof (induction used b e c rule: email_loop.induct)
  case (1 used b e c)
  show ?case
  proof (cases "e |\<in>| used")
    case False
    then show ?thesis by (simp add: email_loop.simps [of used b e c])
  next
    case True
    have step: "email_loop used b e c = email_loop used b (suffixed_email b c) (c + 1)"
      using True by (simp add: email_loop.simps [of used b e c])
    from 1 [OF True] show ?thesis
    proof
      assume a: "email_loop used b (suffixed_email b c) (c + 1) = suffixed_email b c \<and> suffixed_email b c |\<notin>| used"
      then have "c \<le> c \<and> email_loop used b e c = suffixed_email b c \<and> e |\<in>| used \<and>
        (\<forall>j. c \<le> j \<and> j < c \<longrightarrow> suffixed_email b j |\<in>| used)"
        using True step by auto
      then show ?thesis by blast
    next
      assume "\<exists>k. c + 1 \<le> k \<and> email_loop used b (suffixed_email b c) (c + 1) = suffixed_email b k \<and>
          suffixed_email b c |\<in>| used \<and> (\<forall>j. c + 1 \<le> j \<and> j < k \<longrightarrow> suffixed_email b j |\<in>| used)"
      then obtain k where k: "c + 1 \<le> k" "email_loop used b (suffixed_email b c) (c + 1) = suffixed_email b k"
          "suffixed_email b c |\<in>| used" "\<forall>j. c + 1 \<le> j \<and> j < k \<longrightarrow> suffixed_email b j |\<in>| used"
        by blast
      have "\<forall>j. c \<le> j \<and> j < k \<longrightarrow> suffixed_email b j |\<in>| used"
      proof (intro allI impI)
        fix j assume "c \<le> j \<and> j < k"
        then show "suffixed_email b j |\<in>| used"
          using k(3,4) by (cases "j = c") auto
      qed
      then have "c \<le> k \<and> email_loop used b e c = suffixed_email b k \<and> e |\<in>| used \<and>
        (\<forall>j. c \<le> j \<and> j < k \<longrightarrow> suffixed_email b j |\<in>| used)"
        using k True step by simp
      then show ?thesis by blast
    qed
  qed
qed

lemma generate_unique_email_used:
  "used_emails (snd (generate_unique_email m f l)) = finsert (fst (generate_unique_email m f l)) (used_emails m)"
  by (simp add: generate_unique_email_def Let_def)

lemma generate_unique_email_fresh:
  "fst (generate_unique_email m f l) |\<notin>| used_emails m"
  by (simp add: generate_unique_email_def Let_def email_loop_fresh)

lemma new_student_email:
  "email (fst (new_student m)) = fst (generate_unique_email m (first_names (fake m) 0) (last_names (fake m) 0))"
  by (simp add: new_student_def fake_first_name_def fake_last_name_def Let_def split: prod.splits)

lemma new_student_used:
  "used_emails (snd (new_student m)) = finsert (email (fst (new_student m))) (used_emails m)"
  by (simp add: new_student_def fake_first_name_def fake_last_name_def Let_def generate_unique_email_def split: prod.splits)

lemma new_student_fresh: "email (fst (new_student m)) |\<notin>| used_emails m"
  by (simp add: new_student_email generate_unique_email_fresh)

lemma students_loop_emails:
  "students_loop n m = (students, m') \<Longrightarrow>
     distinct (map email students) \<and> length students = n \<and>
     (\<forall>s \<in> set students. email s |\<notin>| used_emails m) \<and>
     used_emails m' = used_emails m |\<union>| fset_of_list (map email students)"
proof (induction n arbitrary: m students m')
  case 0
  then show ?case by auto
next
  case (Suc n)
  obtain s m1 where s: "new_student m = (s, m1)" by (cases "new_student m")
  obtain rest m2 where r: "students_loop n m1 = (rest, m2)" by (cases "students_loop n m1")
  from Suc.prems s r have eq: "students = s # rest" "m' = m2" by auto
  have u1: "used_emails m1 = finsert (email s) (used_emails m)"
    using new_student_used [of m] s by simp
  have f1: "email s |\<notin>| used_emails m"
    using new_student_fresh [of m] s by simp
  from Suc.IH [OF r] have ih: "distinct (map email rest)" "length rest = n"
    "\<forall>x \<in> set rest. email x |\<notin>| used_emails m1"
    "used_emails m2 = used_emails m1 |\<union>| fset_of_list (map email rest)" by auto
  show ?case
    using ih f1 by (auto simp: eq u1)
qed

subsection \<open>Ranges of the random values\<close>

lemma random_unit_bounds: "0 \<le> fst (random_unit g) \<and> fst (random_unit g) < 1"
proof -
  have "int (g 0) mod 2 ^ 53 < 2 ^ 53" by simp
  then have "(of_int (int (g 0) mod 2 ^ 53) :: rat) < of_int (2 ^ 53)"
    by (simp only: of_int_less_iff)
  then show ?thesis
    by (simp add: random_unit_def draw_def)
qed

lemma uniform_bounds:
  assumes "a \<le> b"
  shows "a \<le> fst (uniform a b g) \<and> fst (uniform a b g) \<le> b"
proof -
  obtain u g' where u: "random_unit g = (u, g')" by (cases "random_unit g")
  have ub: "0 \<le> u" "u < 1" using random_unit_bounds [of g] u by auto
  have "0 \<le> (b - a) * u" using assms ub by simp
  moreover have "(b - a) * u \<le> (b - a) * 1"
    using assms ub by (intro mult_left_mono) auto
  ultimately show ?thesis by (simp add: uniform_def u)
qed

lemma round_half_even_bounds:
  assumes "of_int a \<le> x" "x \<le> of_int b"
  shows "a \<le> round_half_even x \<and> round_half_even x \<le> b"
proof -
  have lo: "a \<le> \<lfloor>x\<rfloor>" using assms(1) by (simp add: le_floor_iff)
  have hi: "\<lfloor>x\<rfloor> \<le> b" using assms(2) by (simp add: floor_le_iff)
  show ?thesis
  proof (cases "\<lfloor>x\<rfloor> = b")
    case True
    then have "x - of_int \<lfloor>x\<rfloor> \<le> 0" using assms(2) by simp
    then show ?thesis using lo True by (simp add: round_half_even_def Let_def)
  next
    case False
    then have "\<lfloor>x\<rfloor> + 1 \<le> b" using hi by simp
    then show ?thesis using lo by (simp add: round_half_even_def Let_def)
  qed
qed

lemma round2_bounds:
  assumes "2 \<le> x" "x \<le> 4"
  shows "2 \<le> round2 x \<and> round2 x \<le> 4"
proof -
  have "of_int 200 \<le> x * 100" "x * 100 \<le> of_int 400" using assms by simp_all
  from round_half_even_bounds [OF this]
  have b: "200 \<le> round_half_even (x * 100)" "round_half_even (x * 100) \<le> 400" by simp_all
  have "(of_int 200 :: rat) \<le> of_int (round_half_even (x * 100))"
       "(of_int (round_half_even (x * 100)) :: rat) \<le> of_int 400"
    using b by (simp_all only: of_int_le_iff)
  then show ?thesis by (simp add: round2_def)
qed

lemma randint_bounds:
  assumes "a \<le> b"
  shows "a \<le> fst (randint a b g) \<and> fst (randint a b g) \<le> b"
proof -
  have "0 < nat (b - a + 1)" using assms by simp
  then have "g 0 mod nat (b - a + 1) < nat (b - a + 1)" by simp
  then have "int (g 0 mod nat (b - a + 1)) < b - a + 1" by linarith
  then show ?thesis by (simp add: randint_def randbelow_def draw_def)
qed

lemma new_student_ranges:
  "2 \<le> gpa (fst (new_student m)) \<and> gpa (fst (new_student m)) \<le> 4 \<and>
   (\<exists>i. gpa (fst (new_student m)) = of_int i / 100) \<and>
   0 \<le> total_credits (fst (new_student m)) \<and> total_credits (fst (new_student m)) \<le> 120"
proof -
  obtain sex g1 where 1: "choice gender_options (rng m) = (sex, g1)" by (cases "choice gender_options (rng m)")
  obtain status g2 where 2: "choice status_options g1 = (status, g2)" by (cases "choice status_options g1")
  obtain credits g3 where 3: "randint 0 120 g2 = (credits, g3)" by (cases "randint 0 120 g2")
  obtain x g4 where 4: "uniform 2 4 g3 = (x, g4)" by (cases "uniform 2 4 g3")
  have c: "0 \<le> credits \<and> credits \<le> 120" using randint_bounds [of 0 120 g2] 3 by simp
  have x: "2 \<le> x \<and> x \<le> 4" using uniform_bounds [of 2 4 g3] 4 by simp
  have g: "gpa (fst (new_student m)) = round2 x" "total_credits (fst (new_student m)) = credits"
    by (simp_all add: new_student_def 1 2 3 4 Let_def split: prod.splits)
  have "\<exists>i. round2 x = of_int i / 100" by (auto simp: round2_def)
  then show ?thesis using c round2_bounds [of x] x by (simp add: g)
qed

lemma students_loop_ranges:
  "students_loop n m = (students, m') \<Longrightarrow>
     \<forall>s \<in> set students. 2 \<le> gpa s \<and> gpa s \<le> 4 \<and> (\<exists>i. gpa s = of_int i / 100) \<and>
        0 \<le> total_credits s \<and> total_credits s \<le> 120"
proof (induction n arbitrary: m students m')
  case 0
  then show ?case by auto
next
  case (Suc n)
  obtain s m1 where s: "new_student m = (s, m1)" by (cases "new_student m")
  obtain rest m2 where r: "students_loop n m1 = (rest, m2)" by (cases "students_loop n m1")
  from Suc.prems s r have eq: "students = s # rest" by auto
  show ?case
    using Suc.IH [OF r] new_student_ranges [of m] s by (simp add: eq)
qed

subsection \<open>Sampling without replacement\<close>

lemma randbelow_less: "0 < n \<Longrightarrow> fst (randbelow n g) < n"
  by (simp add: randbelow_def draw_def)

lemma choice_in_set: "seq \<noteq> [] \<Longrightarrow> fst (choice seq g) \<in> set seq"
  by (simp add: choice_def randbelow_def draw_def)

lemma pool_remove:
  assumes "distinct pool" "j < length pool"
  shows "distinct (butlast (pool[j := last pool])) \<and>
         set (butlast (pool[j := last pool])) = set pool - {pool ! j} \<and>
         length (butlast (pool[j := last pool])) = length pool - 1"
proof (cases pool rule: rev_cases)
  case Nil
  then show ?thesis using assms(2) by simp
next
  case (snoc ys l)
  have d: "distinct ys" "l \<notin> set ys" using assms(1) snoc by auto
  show ?thesis
  proof (cases "j < length ys")
    case True
    have u: "butlast (pool[j := last pool]) = ys[j := l]"
      using True by (simp add: snoc list_update_append)
    have 1: "distinct (ys[j := l])"
      using d by (intro distinct_list_update) auto
    have 2: "set (ys[j := l]) = insert l (set ys - {ys ! j})"
      using d True by (simp add: set_update_distinct)
    have 3: "ys ! j \<noteq> l" using True d nth_mem [of j ys] by auto
    have 4: "pool ! j = ys ! j" using True by (simp add: snoc nth_append)
    have 5: "set pool = insert l (set ys)" by (simp add: snoc)
    have 6: "set (ys[j := l]) = set pool - {pool ! j}"
      unfolding 2 4 5 using 3 d(2) by blast
    show ?thesis
      unfolding u using 1 6 by (simp add: snoc)
  next
    case False
    then have j: "j = length ys" using assms(2) snoc by simp
    show ?thesis using d by (auto simp: snoc j)
  qed
qed

lemma sample_pool_props:
  "k \<le> length pool \<Longrightarrow> distinct pool \<Longrightarrow> sample_pool pool k g = (xs, g') \<Longrightarrow>
     distinct xs \<and> set xs \<subseteq> set pool \<and> length xs = k"
proof (induction k arbitrary: pool g xs g')
  case 0
  then show ?case by simp
next
  case (Suc k)
  obtain j g1 where j: "randbelow (length pool) g = (j, g1)" by (cases "randbelow (length pool) g")
  obtain rest g2 where r: "sample_pool (butlast (pool[j := last pool])) k g1 = (rest, g2)"
    by (cases "sample_pool (butlast (pool[j := last pool])) k g1")
  have "0 < length pool" using Suc.prems(1) by (cases pool) auto
  from randbelow_less [OF this, of g] have jl: "j < length pool"
    using j by simp
  note pr = pool_remove [OF Suc.prems(2) jl]
  have "k \<le> length (butlast (pool[j := last pool]))" using pr Suc.prems(1) by simp
  from Suc.IH [OF this _ r] pr
  have ih: "distinct rest" "set rest \<subseteq> set pool - {pool ! j}" "length rest = k" by auto
  have xs: "xs = pool ! j # rest" using Suc.prems(3) j r by simp
  show ?case using ih jl by (auto simp: xs)
qed

lemma sample_length_only:
  "k \<le> length pool \<Longrightarrow> sample_pool pool k g = (xs, g') \<Longrightarrow> length xs = k"
proof (induction k arbitrary: pool g xs g')
  case 0
  then show ?case by simp
next
  case (Suc k)
  obtain j g1 where j: "randbelow (length pool) g = (j, g1)" by (cases "randbelow (length pool) g")
  obtain rest g2 where r: "sample_pool (butlast (pool[j := last pool])) k g1 = (rest, g2)"
    by (cases "sample_pool (butlast (pool[j := last pool])) k g1")
  have "k \<le> length (butlast (pool[j := last pool]))" using Suc.prems(1) by simp
  from Suc.IH [OF this r] have "length rest = k" .
  then show ?case using Suc.prems(2) j r by auto
qed

lemma sample_Inr:
  assumes "sample population k g = (Inr xs, g')"
  shows "0 \<le> k \<and> length xs = nat k \<and> (distinct population \<longrightarrow> distinct xs \<and> set xs \<subseteq> set population)"
proof -
  have k: "0 \<le> k" "k \<le> int (length population)"
    using assms by (auto simp: sample_def split: if_splits)
  then have n: "nat k \<le> length population" by simp
  obtain ys g2 where s: "sample_pool population (nat k) g = (ys, g2)"
    by (cases "sample_pool population (nat k) g")
  have "xs = ys" using assms k s by (simp add: sample_def)
  then show ?thesis
    using sample_pool_props [OF n _ s] sample_length_only [OF n s] k by auto
qed

lemma sample_Inl:
  "sample population k g = (Inl e, g') \<Longrightarrow> \<not> (0 \<le> k \<and> k \<le> int (length population))"
  by (auto simp: sample_def split: if_splits prod.splits)

lemma round2_hundredths: "\<exists>i. round2 x = of_int i / 100"
  by (auto simp: round2_def)

lemma semesters_nonempty: "semesters \<noteq> []"
  by (simp add: semesters_def)

lemma academic_years_nonempty: "academic_years \<noteq> []"
  by (simp add: academic_years_def upto.simps)

lemma course_enrollments_props:
  "course_enrollments sid cs g = (es, g') \<Longrightarrow>
     map enr_course_id es = cs \<and> (\<forall>e \<in> set es. enr_student_id e = sid \<and> enrollment_ok e)"
proof (induction cs arbitrary: g es g')
  case Nil
  then show ?case by simp
next
  case (Cons cid cs)
  obtain sem g1 where 1: "choice semesters g = (sem, g1)" by (cases "choice semesters g")
  obtain year g2 where 2: "choice academic_years g1 = (year, g2)" by (cases "choice academic_years g1")
  obtain x g3 where 3: "uniform 2 4 g2 = (x, g3)" by (cases "uniform 2 4 g2")
  obtain rest g4 where 4: "course_enrollments sid cs g3 = (rest, g4)"
    by (cases "course_enrollments sid cs g3")
  define e where "e = \<lparr>enr_student_id = sid, enr_course_id = cid, semester = sem, academic_year = year,
           grade = round2 x\<rparr>"
  have s: "sem \<in> set semesters" using choice_in_set [OF semesters_nonempty, of g] 1 by simp
  have y: "year \<in> set academic_years"
    using choice_in_set [OF academic_years_nonempty, of g1] 2 by simp
  have x: "2 \<le> round2 x \<and> round2 x \<le> 4"
    using uniform_bounds [of 2 4 g2] 3 round2_bounds [of x] by simp
  have ok: "enrollment_ok e \<and> enr_student_id e = sid \<and> enr_course_id e = cid"
    using s y x round2_hundredths [of x] by (simp add: e_def enrollment_ok_def)
  have es: "es = e # rest"
    using Cons.prems 1 2 3 4 by (simp add: e_def)
  show ?case
    using Cons.IH [OF 4] ok by (simp add: es)
qed

subsection \<open>Enrollments\<close>

lemma distinct_map_finer:
  assumes "distinct (map f xs)" "\<And>x y. k x = k y \<Longrightarrow> f x = f y"
  shows "distinct (map k xs)"
proof -
  have f: "inj_on f (set xs)" and d: "distinct xs" using assms(1) by (simp_all add: distinct_map)
  have "inj_on k (set xs)"
  proof (rule inj_onI)
    fix x y assume x: "x \<in> set xs" and y: "y \<in> set xs" and e: "k x = k y"
    from e have "f x = f y" by (rule assms(2))
    with f show "x = y" using x y by (rule inj_onD)
  qed
  with d show ?thesis by (simp add: distinct_map)
qed

lemma enrollment_key_course: "enrollment_key x = enrollment_key y \<Longrightarrow> enr_course_id x = enr_course_id y"
  by (simp add: enrollment_key_def)

lemma enrollment_key_student: "fst (enrollment_key x) = enr_student_id x"
  by (simp add: enrollment_key_def)

text \<open>One pass of the outer loop, taken apart.\<close>

lemma student_enrollments_Cons:
  assumes "student_enrollments (sid # students) courses g = (Inr es, g')"
  obtains enrolled block rest g3 where
    "es = block @ rest"
    "student_enrollments students courses g3 = (Inr rest, g')"
    "map enr_course_id block = enrolled"
    "\<forall>e \<in> set block. enr_student_id e = sid \<and> enrollment_ok e"
    "3 \<le> length enrolled" "length enrolled \<le> 5"
    "distinct courses \<longrightarrow> distinct enrolled \<and> set enrolled \<subseteq> set courses"
proof -
  obtain num g1 where n: "randint 3 5 g = (num, g1)" by (cases "randint 3 5 g")
  have nb: "3 \<le> num \<and> num \<le> 5" using randint_bounds [of 3 5 g] n by simp
  obtain r g2 where s: "sample courses num g1 = (r, g2)" by (cases "sample courses num g1")
  from assms n s obtain enrolled where r: "r = Inr enrolled"
    by (cases r) auto
  obtain block g3 where b: "course_enrollments sid enrolled g2 = (block, g3)"
    by (cases "course_enrollments sid enrolled g2")
  obtain r2 g4 where t: "student_enrollments students courses g3 = (r2, g4)"
    by (cases "student_enrollments students courses g3")
  from assms n s r b t obtain rest where r2: "r2 = Inr rest"
    by (cases r2) auto
  have es: "es = block @ rest" "g' = g4" using assms n s r b t r2 by auto
  note sp = sample_Inr [OF s [unfolded r]]
  have len: "3 \<le> length enrolled" "length enrolled \<le> 5" using sp nb by auto
  note cp = course_enrollments_props [OF b]
  show thesis
    using that [of block rest g3 enrolled] es t r2 cp len sp by auto
qed

lemma student_enrollments_rows:
  "student_enrollments students courses g = (Inr es, g') \<Longrightarrow>
     (\<forall>e \<in> set es. enr_student_id e \<in> set students \<and> enrollment_ok e) \<and>
     3 * length students \<le> length es \<and> length es \<le> 5 * length students"
proof (induction students arbitrary: g es)
  case Nil
  then show ?case by simp
next
  case (Cons sid students)
  from Cons.prems obtain enrolled block rest g3 where
    p: "es = block @ rest" "student_enrollments students courses g3 = (Inr rest, g')"
       "map enr_course_id block = enrolled"
       "\<forall>e \<in> set block. enr_student_id e = sid \<and> enrollment_ok e"
       "3 \<le> length enrolled" "length enrolled \<le> 5"
    by (rule student_enrollments_Cons)
  have lb: "length block = length enrolled" using p(3) by (metis length_map)
  from Cons.IH [OF p(2)] p(4,5,6) lb show ?case
    by (auto simp: p(1))
qed

lemma student_enrollments_per_student:
  "student_enrollments students courses g = (Inr es, g') \<Longrightarrow> distinct students \<Longrightarrow>
   distinct courses \<Longrightarrow>
     \<forall>sid \<in> set students.
       3 \<le> length [e \<leftarrow> es. enr_student_id e = sid] \<and>
       length [e \<leftarrow> es. enr_student_id e = sid] \<le> 5 \<and>
       distinct (map enr_course_id [e \<leftarrow> es. enr_student_id e = sid]) \<and>
       set (map enr_course_id [e \<leftarrow> es. enr_student_id e = sid]) \<subseteq> set courses"
proof (induction students arbitrary: g es)
  case Nil
  then show ?case by simp
next
  case (Cons sid students)
  from Cons.prems(1) obtain enrolled block rest g3 where
    p: "es = block @ rest" "student_enrollments students courses g3 = (Inr rest, g')"
       "map enr_course_id block = enrolled"
       "\<forall>e \<in> set block. enr_student_id e = sid \<and> enrollment_ok e"
       "3 \<le> length enrolled" "length enrolled \<le> 5"
       "distinct courses \<longrightarrow> distinct enrolled \<and> set enrolled \<subseteq> set courses"
    by (rule student_enrollments_Cons)
  have lb: "length block = length enrolled" using p(3) by (metis length_map)
  have ds: "distinct students" "sid \<notin> set students" using Cons.prems(2) by auto
  note ih = Cons.IH [OF p(2) ds(1) Cons.prems(3)]
  have rest_ids: "\<forall>e \<in> set rest. enr_student_id e \<in> set students"
    using student_enrollments_rows [OF p(2)] by simp
  have own: "[e \<leftarrow> es. enr_student_id e = sid] = block"
  proof -
    have "[e \<leftarrow> block. enr_student_id e = sid] = block" using p(4) by (simp add: filter_id_conv)
    moreover have "[e \<leftarrow> rest. enr_student_id e = sid] = []"
      using rest_ids ds(2) by (auto simp: filter_empty_conv)
    ultimately show ?thesis by (simp add: p(1))
  qed
  have other: "[e \<leftarrow> es. enr_student_id e = s] = [e \<leftarrow> rest. enr_student_id e = s]"
    if "s \<in> set students" for s
  proof -
    have "s \<noteq> sid" using that ds(2) by auto
    then have "[e \<leftarrow> block. enr_student_id e = s] = []"
      using p(4) by (auto simp: filter_empty_conv)
    then show ?thesis by (simp add: p(1))
  qed
  show ?case
  proof
    fix s assume "s \<in> set (sid # students)"
    then consider "s = sid" | "s \<in> set students" by auto
    then show "3 \<le> length [e \<leftarrow> es. enr_student_id e = s] \<and>
       length [e \<leftarrow> es. enr_student_id e = s] \<le> 5 \<and>
       distinct (map enr_course_id [e \<leftarrow> es. enr_student_id e = s]) \<and>
       set (map enr_course_id [e \<leftarrow> es. enr_student_id e = s]) \<subseteq> set courses"
    proof cases
      case 1
      show ?thesis unfolding 1 own using p(3,5,6,7) lb Cons.prems(3) by auto
    next
      case 2
      show ?thesis unfolding other [OF 2] using ih 2 by blast
    qed
  qed
qed

lemma student_enrollments_keys:
  "student_enrollments students courses g = (Inr es, g') \<Longrightarrow> distinct students \<Longrightarrow>
   distinct courses \<Longrightarrow> distinct (map enrollment_key es)"
proof (induction students arbitrary: g es)
  case Nil
  then show ?case by simp
next
  case (Cons sid students)
  from Cons.prems(1) obtain enrolled block rest g3 where
    p: "es = block @ rest" "student_enrollments students courses g3 = (Inr rest, g')"
       "map enr_course_id block = enrolled"
       "\<forall>e \<in> set block. enr_student_id e = sid \<and> enrollment_ok e"
       "3 \<le> length enrolled" "length enrolled \<le> 5"
       "distinct courses \<longrightarrow> distinct enrolled \<and> set enrolled \<subseteq> set courses"
    by (rule student_enrollments_Cons)
  have ds: "distinct students" "sid \<notin> set students" using Cons.prems(2) by auto
  have 1: "distinct (map enrollment_key rest)"
    by (rule Cons.IH [OF p(2) ds(1) Cons.prems(3)])
  have "distinct (map enr_course_id block)" using p(3,7) Cons.prems(3) by simp
  then have 2: "distinct (map enrollment_key block)"
    by (rule distinct_map_finer) (rule enrollment_key_course)
  have rest_ids: "\<forall>e \<in> set rest. enr_student_id e \<in> set students"
    using student_enrollments_rows [OF p(2)] by simp
  have ne: "enrollment_key x \<noteq> enrollment_key y" if "x \<in> set block" "y \<in> set rest" for x y
  proof -
    have "enr_student_id x = sid" using that(1) p(4) by simp
    moreover have "enr_student_id y \<in> set students" using that(2) rest_ids by simp
    ultimately have "enr_student_id x \<noteq> enr_student_id y" using ds(2) by auto
    then show ?thesis by (auto simp: enrollment_key_def)
  qed
  have 3: "set (map enrollment_key block) \<inter> set (map enrollment_key rest) = {}"
    using ne by fastforce
  show ?case using 1 2 3 by (simp add: p(1))
qed

lemma student_enrollments_total:
  "5 \<le> length courses \<Longrightarrow> \<exists>es g'. student_enrollments students courses g = (Inr es, g')"
proof (induction students arbitrary: g)
  case Nil
  then show ?case by simp
next
  case (Cons sid students)
  obtain num g1 where n: "randint 3 5 g = (num, g1)" by (cases "randint 3 5 g")
  have nb: "3 \<le> num \<and> num \<le> 5" using randint_bounds [of 3 5 g] n by simp
  obtain r g2 where s: "sample courses num g1 = (r, g2)" by (cases "sample courses num g1")
  have "\<exists>enrolled. r = Inr enrolled"
  proof (cases r)
    case (Inl e)
    then show ?thesis using sample_Inl [of courses num g1 e g2] s nb Cons.prems by auto
  next
    case (Inr xs)
    then show ?thesis by simp
  qed
  then obtain enrolled where r: "r = Inr enrolled" by blast
  obtain block g3 where b: "course_enrollments sid enrolled g2 = (block, g3)"
    by (cases "course_enrollments sid enrolled g2")
  from Cons.IH [OF Cons.prems, of g3] obtain rest g4 where
    t: "student_enrollments students courses g3 = (Inr rest, g4)" by blast
  show ?case using n s r b t by simp
qed

lemma insert_rows_Done_append:
  assumes step: "\<And>t r t'. ins t r = Inr t' \<Longrightarrow> \<exists>x. t' = t @ [x] \<and> p x = r"
  shows "insert_rows ins t rs = (Done, t') \<Longrightarrow> \<exists>new. t' = t @ new \<and> map p new = rs"
proof (induction rs arbitrary: t)
  case Nil
  then show ?case by simp
next
  case (Cons r rs)
  show ?case
  proof (cases "ins t r")
    case (Inl e)
    with Cons.prems show ?thesis by simp
  next
    case (Inr t1)
    from step [OF Inr] obtain x where x: "t1 = t @ [x]" "p x = r" by blast
    from Cons.prems Inr have "insert_rows ins t1 rs = (Done, t')" by simp
    from Cons.IH [OF this] obtain new where n: "t' = t1 @ new" "map p new = rs" by blast
    have "t' = t @ (x # new) \<and> map p (x # new) = r # rs" using x n by simp
    then show ?thesis by (intro exI [of _ "x # new"])
  qed
qed

lemma insert_enrollment_Inr:
  "insert_enrollment rows e = Inr rows' \<Longrightarrow> \<exists>x. rows' = rows @ [x] \<and> snd x = e"
  by (auto simp: insert_enrollment_def split: if_splits)

lemma insert_course_Inr:
  "insert_course rows c = Inr rows' \<Longrightarrow> \<exists>x. rows' = rows @ [x] \<and> id x = c"
  by (auto simp: insert_course_def split: if_splits)

lemma insert_student_Inr:
  "insert_student rows s = Inr rows' \<Longrightarrow> \<exists>x. rows' = rows @ [x] \<and> snd x = s"
  by (auto simp: insert_student_def split: if_splits)

lemma enrollment_ok_checks:
  assumes "enrollment_ok e"
  shows "semester e \<in> set [''Fall'', ''Spring'', ''Summer'']" "0 \<le> grade e" "grade e \<le> 4"
  using assms by (simp_all add: enrollment_ok_def semesters_def)

lemma insert_enrollment_ok:
  assumes "enrollment_ok e" "enrollment_key e \<notin> set (map (enrollment_key \<circ> snd) rows)"
  shows "insert_enrollment rows e = Inr (rows @ [(next_id rows, e)])"
  unfolding insert_enrollment_def
  using enrollment_ok_checks [OF assms(1)] assms(2) by simp

lemma insert_enrollments_succeed:
  "\<forall>e \<in> set es. enrollment_ok e \<Longrightarrow> distinct (map enrollment_key es) \<Longrightarrow>
   \<forall>e \<in> set es. enrollment_key e \<notin> set (map (enrollment_key \<circ> snd) rows) \<Longrightarrow>
     \<exists>new. insert_rows insert_enrollment rows es = (Done, rows @ new) \<and> map snd new = es"
proof (induction es arbitrary: rows)
  case Nil
  then show ?case by simp
next
  case (Cons e es)
  have 1: "insert_enrollment rows e = Inr (rows @ [(next_id rows, e)])"
    using Cons.prems(1,3) by (intro insert_enrollment_ok) simp_all
  have 2: "\<forall>x \<in> set es. enrollment_ok x" "distinct (map enrollment_key es)"
    using Cons.prems(1,2) by simp_all
  have 3: "\<forall>x \<in> set es. enrollment_key x \<notin> set (map (enrollment_key \<circ> snd) (rows @ [(next_id rows, e)]))"
  proof
    fix x assume x: "x \<in> set es"
    have "enrollment_key e \<notin> set (map enrollment_key es)" using Cons.prems(2) by simp
    then have "enrollment_key x \<noteq> enrollment_key e" using x by (metis imageI set_map)
    moreover have "enrollment_key x \<notin> set (map (enrollment_key \<circ> snd) rows)"
      using Cons.prems(3) x by simp
    ultimately show "enrollment_key x \<notin> set (map (enrollment_key \<circ> snd) (rows @ [(next_id rows, e)]))"
      by simp
  qed
  from Cons.IH [OF 2 3] obtain new where
    n: "insert_rows insert_enrollment (rows @ [(next_id rows, e)]) es = (Done, (rows @ [(next_id rows, e)]) @ new)"
       "map snd new = es" by blast
  have "insert_rows insert_enrollment rows (e # es) = (Done, rows @ ((next_id rows, e) # new)) \<and>
        map snd ((next_id rows, e) # new) = e # es"
    using 1 n by simp
  then show ?case by (intro exI [of _ "(next_id rows, e) # new"])
qed

lemma cursor_rng [simp]: "cursor (m\<lparr>rng := g\<rparr>) = cursor m"
  by (simp add: cursor_def)

lemma select_all_Inr:
  "select_all name get m = Inr t \<longleftrightarrow> (\<exists>c. cursor m = Inr c \<and> get (view c) = Some t)"
  by (auto simp: select_all_def split: sum.splits option.splits)

lemma executemany_open:
  assumes "cursor m = Inr c" "get (view c) = Some t" "insert_rows ins t rows = (r, t')"
  shows "executemany name get put ins rows m =
           (r, m\<lparr>conn := Some (c\<lparr>view := put (view c) t', in_txn := True\<rparr>)\<rparr>)"
  using assms by (simp add: executemany_def)

lemma generate_enrollments_unfold:
  assumes "cursor m = Inr c" "Students (view c) = Some srows" "Courses (view c) = Some crows"
      and "student_enrollments (map fst srows) (map course_id crows) (rng m) = (Inr es, g)"
  shows "generate_enrollments m =
           executemany ''Enrollments'' Enrollments (\<lambda>v t. v\<lparr>Enrollments := Some t\<rparr>)
             insert_enrollment es (m\<lparr>rng := g\<rparr>)"
proof -
  have 1: "select_all ''Students'' Students m = Inr srows"
    using assms(1,2) by (simp add: select_all_Inr)
  have 2: "select_all ''Courses'' Courses m = Inr crows"
    using assms(1,3) by (simp add: select_all_Inr)
  show ?thesis by (simp add: generate_enrollments_def 1 2 assms(4))
qed

lemma generate_enrollments_fresh:
  assumes "cursor m = Inr c" "Students (view c) = Some srows" "Courses (view c) = Some crows"
      and "Enrollments (view c) = Some []"
      and "student_enrollments (map fst srows) (map course_id crows) (rng m) = (Inr es, g)"
      and "distinct (map fst srows)" "distinct (map course_id crows)"
  shows "\<exists>rows. generate_enrollments m =
           (Done, m\<lparr>rng := g, conn := Some (c\<lparr>view := (view c)\<lparr>Enrollments := Some rows\<rparr>,
                                               in_txn := True\<rparr>)\<rparr>) \<and> map snd rows = es"
proof -
  have ok: "\<forall>e \<in> set es. enrollment_ok e"
    using student_enrollments_rows [OF assms(5)] by simp
  have keys: "distinct (map enrollment_key es)"
    by (rule student_enrollments_keys [OF assms(5,6,7)])
  from insert_enrollments_succeed [OF ok keys, of "[]"] obtain new where
    n: "insert_rows insert_enrollment [] es = (Done, new)" "map snd new = es" by auto
  have "generate_enrollments m =
      (Done, m\<lparr>rng := g, conn := Some (c\<lparr>view := (view c)\<lparr>Enrollments := Some new\<rparr>,
                                               in_txn := True\<rparr>)\<rparr>)"
    unfolding generate_enrollments_unfold [OF assms(1,2,3,5)]
    by (subst executemany_open [where c = c and t = "[]" and r = Done and t' = new])
       (simp_all add: assms(1,4) n(1))
  with n(2) show ?thesis by blast
qed

lemma generate_enrollments_Done:
  assumes "generate_enrollments m = (Done, m')" "cursor m = Inr c" "Enrollments (view c) = Some rows0"
  obtains srows crows es g new where
    "Students (view c) = Some srows" "Courses (view c) = Some crows"
    "student_enrollments (map fst srows) (map course_id crows) (rng m) = (Inr es, g)"
    "m' = m\<lparr>rng := g, conn := Some (c\<lparr>view := (view c)\<lparr>Enrollments := Some (rows0 @ new)\<rparr>,
                                        in_txn := True\<rparr>)\<rparr>"
    "map snd new = es"
proof -
  obtain srows where s: "Students (view c) = Some srows"
    using assms(1,2) by (cases "Students (view c)") (auto simp: generate_enrollments_def select_all_def)
  have 1: "select_all ''Students'' Students m = Inr srows"
    using assms(2) s by (simp add: select_all_Inr)
  obtain crows where cr: "Courses (view c) = Some crows"
    using assms(1,2) 1
    by (cases "Courses (view c)") (auto simp: generate_enrollments_def select_all_def)
  obtain r g where se: "student_enrollments (map fst srows) (map course_id crows) (rng m) = (r, g)"
    by (cases "student_enrollments (map fst srows) (map course_id crows) (rng m)")
  have 2: "select_all ''Courses'' Courses m = Inr crows"
    using assms(2) cr by (simp add: select_all_Inr)
  obtain es where r: "r = Inr es"
    using assms(1) by (cases r) (auto simp: generate_enrollments_def 1 2 se)
  note u = generate_enrollments_unfold [OF assms(2) s cr se [unfolded r]]
  obtain o1 t' where ir: "insert_rows insert_enrollment rows0 es = (o1, t')"
    by (cases "insert_rows insert_enrollment rows0 es")
  have e: "generate_enrollments m =
      (o1, m\<lparr>rng := g, conn := Some (c\<lparr>view := (view c)\<lparr>Enrollments := Some t'\<rparr>, in_txn := True\<rparr>)\<rparr>)"
    unfolding u
    by (subst executemany_open [where c = c and t = rows0 and r = o1 and t' = t'])
       (simp_all add: assms(2,3) ir)
  with assms(1) have o1: "o1 = Done" and m': "m' = m\<lparr>rng := g, conn := Some (c\<lparr>view := (view c)\<lparr>Enrollments := Some t'\<rparr>, in_txn := True\<rparr>)\<rparr>"
    by simp_all
  from insert_rows_Done_append [of insert_enrollment snd, OF insert_enrollment_Inr ir [unfolded o1]]
  obtain new where n: "t' = rows0 @ new" "map snd new = es" by blast
  show thesis
    by (rule that [OF s cr se [unfolded r] m' [unfolded n(1)] n(2)])
qed

lemma cursor_Inr: "cursor m = Inr c \<longleftrightarrow> conn m = Some c \<and> is_open c"
  by (auto simp: cursor_def split: option.splits)

lemma map_snd_filter: "map snd [r \<leftarrow> rows. P (snd r)] = [e \<leftarrow> map snd rows. P e]"
  by (simp add: filter_map comp_def)

lemma enrollment_ok_ranges:
  assumes "enrollment_ok e"
  shows "semester e \<in> {''Fall'', ''Spring'', ''Summer''} \<and> 2018 \<le> academic_year e \<and>
         academic_year e \<le> 2023 \<and> 2 \<le> grade e \<and> grade e \<le> 4 \<and>
         (\<exists>k. grade e = of_int k / 100)"
proof -
  have "academic_year e \<in> set [2018 .. 2023]"
    using assms by (simp add: enrollment_ok_def academic_years_def)
  then have "2018 \<le> academic_year e \<and> academic_year e \<le> 2023" by (simp only: set_upto atLeastAtMost_iff)
  moreover have "semester e \<in> {''Fall'', ''Spring'', ''Summer''}"
    using assms by (simp add: enrollment_ok_def semesters_def)
  ultimately show ?thesis using assms by (simp add: enrollment_ok_def)
qed

text \<open>A generator that always draws the same number.\<close>

lemma draw_const: "draw (\<lambda>i. c) = (c, \<lambda>i. c)"
  by (simp add: draw_def comp_def)

lemma sample_pool_const: "snd (sample_pool pool k (\<lambda>i. c)) = (\<lambda>i. c)"
proof (induction k arbitrary: pool)
  case 0
  show ?case by simp
next
  case (Suc k)
  obtain rest g2 where
    r: "sample_pool (butlast (pool[c mod length pool := last pool])) k (\<lambda>i. c) = (rest, g2)"
    by (cases "sample_pool (butlast (pool[c mod length pool := last pool])) k (\<lambda>i. c)")
  have "g2 = (\<lambda>i. c)"
    using Suc.IH [of "butlast (pool[c mod length pool := last pool])"] r by simp
  then show ?case by (simp add: randbelow_def draw_const r)
qed

lemma course_enrollments_const:
  "course_enrollments sid cs (\<lambda>i. c) =
     (map (\<lambda>cid. \<lparr>enr_student_id = sid, enr_course_id = cid,
                   semester = semesters ! (c mod length semesters),
                   academic_year = academic_years ! (c mod length academic_years),
                   grade = round2 (2 + 2 * (of_int (int c mod 2 ^ 53) / 2 ^ 53))\<rparr>) cs,
      \<lambda>i. c)"
  by (induction cs)
     (simp_all add: choice_def randbelow_def draw_const uniform_def random_unit_def)

lemma student_enrollments_const:
  assumes "fst (sample courses (3 + int (c mod 3)) (\<lambda>i. c)) = Inr enrolled"
  shows "student_enrollments students courses (\<lambda>i. c) =
           (Inr (concat (map (\<lambda>sid. fst (course_enrollments sid enrolled (\<lambda>i. c))) students)),
            \<lambda>i. c)"
proof (induction students)
  case Nil
  show ?case by simp
next
  case (Cons sid students)
  have r: "randint 3 5 (\<lambda>i. c) = (3 + int (c mod 3), \<lambda>i. c)"
    by (simp add: randint_def randbelow_def draw_const)
  have "snd (sample courses (3 + int (c mod 3)) (\<lambda>i. c)) = (\<lambda>i. c)"
  proof (cases "3 + int (c mod 3) \<le> int (length courses)")
    case True
    obtain xs g' where p: "sample_pool courses (nat (3 + int (c mod 3))) (\<lambda>i. c) = (xs, g')"
      by (cases "sample_pool courses (nat (3 + int (c mod 3))) (\<lambda>i. c)")
    have "g' = (\<lambda>i. c)" using sample_pool_const [of courses "nat (3 + int (c mod 3))" c] p by simp
    then show ?thesis using True p by (simp add: sample_def)
  next
    case False
    then show ?thesis by (simp add: sample_def)
  qed
  with assms have s: "sample courses (3 + int (c mod 3)) (\<lambda>i. c) = (Inr enrolled, \<lambda>i. c)"
    by (metis prod.collapse)
  define block where "block = fst (course_enrollments sid enrolled (\<lambda>i. c))"
  have k: "course_enrollments sid enrolled (\<lambda>i. c) = (block, \<lambda>i. c)"
    by (simp add: block_def course_enrollments_const)
  have lhs: "student_enrollments (sid # students) courses (\<lambda>i. c) =
      (Inr (block @ concat (map (\<lambda>sid. fst (course_enrollments sid enrolled (\<lambda>i. c))) students)),
       \<lambda>i. c)"
    by (simp add: r s k Cons.IH)
  show ?case unfolding lhs by (simp add: block_def)
qed

lemma example_sample:
  "fst (sample [''PHY101'', ''PHY102'', ''PHY103'', ''PHY104'', ''PHY105''] (3 + int (5 mod 3)) (\<lambda>i. 5))
     = Inr [''PHY101'', ''PHY102'', ''PHY103'', ''PHY104'', ''PHY105'']"
  by code_simp

lemma example_values:
  "semesters ! (5 mod length semesters) = ''Summer''"
  "academic_years ! (5 mod length academic_years) = 2023"
  "round2 (2 + 2 * (of_int (int 5 mod 2 ^ 53) / 2 ^ 53)) = 2"
  by code_simp+

lemma example_enrollments:
  "fst (student_enrollments [1, 2] [''PHY101'', ''PHY102'', ''PHY103'', ''PHY104'', ''PHY105''] (\<lambda>i. 5))
     = Inr (map (example_enrollment 1) [''PHY101'', ''PHY102'', ''PHY103'', ''PHY104'', ''PHY105'']
            @ map (example_enrollment 2) [''PHY101'', ''PHY102'', ''PHY103'', ''PHY104'', ''PHY105''])"
  unfolding student_enrollments_const [OF example_sample] course_enrollments_const example_values
  by (simp add: example_enrollment_def)

lemma seeded_state:
  "cursor seeded_manager = Inr seeded_connection"
  "rng seeded_manager = (\<lambda>i. 5)"
  "Students (view seeded_connection) = Some [(1, example_student ''ann.lee@university.edu''),
                       (2, example_student ''ann.lee1@university.edu'')]"
  "Courses (view seeded_connection) = Some (map example_course [''PHY101'', ''PHY102'', ''PHY103'', ''PHY104'', ''PHY105''])"
  "Enrollments (view seeded_connection) = Some []"
  by (simp_all add: seeded_manager_def seeded_connection_def seeded_db_def example_manager_def
        UniversityDatabaseManager_def cursor_def)

lemma seeded_keys:
  "distinct (map fst [(1::int, example_student ''ann.lee@university.edu''),
                       (2, example_student ''ann.lee1@university.edu'')])"
  "distinct (map course_id (map example_course [''PHY101'', ''PHY102'', ''PHY103'', ''PHY104'', ''PHY105'']))"
  "map fst [(1::int, example_student ''ann.lee@university.edu''),
                       (2, example_student ''ann.lee1@university.edu'')] = [1, 2]"
  "map course_id (map example_course [''PHY101'', ''PHY102'', ''PHY103'', ''PHY104'', ''PHY105''])
     = [''PHY101'', ''PHY102'', ''PHY103'', ''PHY104'', ''PHY105'']"
  by (simp_all add: example_course_def)

section \<open>The claims\<close>

text \<open>
  C1. No two students generated in one run share an email.
  \<^verbatim>\<open>generate_unique_email\<close> returns an address that is not among the issued ones and
  records it; the address is the lower-cased \<open>first.last\<close> base at the university domain
  or, when that one is taken, the base followed by the first counter from 1 on whose
  address is free. The \<open>num_students\<close> tuples built by \<^verbatim>\<open>generate_students\<close>
  therefore carry pairwise distinct emails, none of them issued before.
\<close>

theorem generated_emails_pairwise_distinct:
  assumes "generate_unique_email m first_nm last_nm = (issued, m1)"
      and "students_loop num_students m = (students, m2)"
  shows "issued |\<notin>| used_emails m \<and> used_emails m1 = finsert issued (used_emails m) \<and>
         (issued = lower first_nm @ ''.'' @ lower last_nm @ ''@university.edu'' \<or>
          lower first_nm @ ''.'' @ lower last_nm @ ''@university.edu'' |\<in>| used_emails m \<and>
          (\<exists>k\<ge>1. issued = suffixed_email (lower first_nm @ ''.'' @ lower last_nm) k \<and>
             (\<forall>j. 1 \<le> j \<and> j < k \<longrightarrow>
                suffixed_email (lower first_nm @ ''.'' @ lower last_nm) j |\<in>| used_emails m))) \<and>
         length students = num_students \<and> distinct (map email students) \<and>
         (\<forall>s \<in> set students. email s |\<notin>| used_emails m)"
proof -
  let ?b = "lower first_nm @ ''.'' @ lower last_nm"
  have i: "issued = email_loop (used_emails m) ?b (?b @ ''@university.edu'') 1"
    using assms(1) by (auto simp: generate_unique_email_def Let_def)
  have 1: "issued |\<notin>| used_emails m"
    using generate_unique_email_fresh [of m first_nm last_nm] assms(1) by simp
  have 2: "used_emails m1 = finsert issued (used_emails m)"
    using generate_unique_email_used [of m first_nm last_nm] assms(1) by simp
  have 3: "issued = ?b @ ''@university.edu'' \<or>
      ?b @ ''@university.edu'' |\<in>| used_emails m \<and>
      (\<exists>k\<ge>1. issued = suffixed_email ?b k \<and>
         (\<forall>j. 1 \<le> j \<and> j < k \<longrightarrow> suffixed_email ?b j |\<in>| used_emails m))"
    using email_loop_shape [of "used_emails m" ?b "?b @ ''@university.edu''" 1]
    unfolding i by blast
  show ?thesis
    using 1 2 3 students_loop_emails [OF assms(2)] by simp
qed

lemma example_emails:
  "fst (generate_unique_email taken_manager ''Ann'' ''Lee'') = ''ann.lee1@university.edu''"
  by code_simp

theorem generated_emails_pairwise_distinct_witness:
  "fst (generate_unique_email taken_manager ''Ann'' ''Lee'') = ''ann.lee1@university.edu'' \<and>
   ''ann.lee1@university.edu'' |\<notin>| used_emails taken_manager \<and>
   length (fst (students_loop 3 taken_manager)) = 3 \<and>
   distinct (map email (fst (students_loop 3 taken_manager)))"
proof -
  note t = generated_emails_pairwise_distinct
    [OF surjective_pairing surjective_pairing, of taken_manager "''Ann''" "''Lee''" 3]
  from t have 1: "fst (generate_unique_email taken_manager ''Ann'' ''Lee'') |\<notin>| used_emails taken_manager"
    by (rule conjunct1)
  from t have 2: "length (fst (students_loop 3 taken_manager)) = 3 \<and>
      distinct (map email (fst (students_loop 3 taken_manager)))"
    by blast
  show ?thesis using 1 2 example_emails by simp
qed

text \<open>
  C5. Every student built by \<^verbatim>\<open>generate_students\<close> has a GPA between 2.0 and 4.0
  that is a whole number of hundredths, and total credits between 0 and 120.
\<close>

theorem student_gpa_and_credits_in_range:
  assumes "students_loop num_students m = (students, m')"
  shows "\<forall>s \<in> set students.
           2 \<le> gpa s \<and> gpa s \<le> 4 \<and> (\<exists>i. gpa s = of_int i / 100) \<and>
           0 \<le> total_credits s \<and> total_credits s \<le> 120"
  using students_loop_ranges [OF assms] .

lemma example_student:
  "map (\<lambda>s. (gpa s, total_credits s)) (fst (students_loop 1 example_manager)) = [(2, 5)]"
  by code_simp

theorem student_gpa_and_credits_in_range_witness:
  "map (\<lambda>s. (gpa s, total_credits s)) (fst (students_loop 1 example_manager)) = [(2, 5)] \<and>
   list_all (\<lambda>s. 2 \<le> gpa s \<and> gpa s \<le> 4 \<and> 0 \<le> total_credits s \<and> total_credits s \<le> 120)
     (fst (students_loop 1 example_manager))"
  using student_gpa_and_credits_in_range
    [of 1 example_manager "fst (students_loop 1 example_manager)"
        "snd (students_loop 1 example_manager)"]
    example_student
  by (simp add: list_all_iff)

text \<open>
  C3. No two enrollments produced by \<^verbatim>\<open>generate_enrollments\<close> in one run share the
  tuple (student, course, semester, academic year). The student keys and the course keys
  read from the tables are primary keys, so pairwise distinct; whenever the sampling goes
  through, the list built has pairwise distinct tuples, and its insertion into the freshly
  created table succeeds: the \<^verbatim>\<open>UNIQUE\<close> constraint never fires.
\<close>

theorem enrollment_keys_unique:
  assumes "cursor m = Inr c"
      and "Students (view c) = Some student_rows" and "Courses (view c) = Some course_rows"
      and "Enrollments (view c) = Some []"
      and "distinct (map fst student_rows)" and "distinct (map course_id course_rows)"
      and "fst (student_enrollments (map fst student_rows) (map course_id course_rows) (rng m))
             = Inr enrollments"
  shows "distinct (map enrollment_key enrollments) \<and>
         (\<exists>m' c' rows. generate_enrollments m = (Done, m') \<and> cursor m' = Inr c' \<and>
            Enrollments (view c') = Some rows \<and> map snd rows = enrollments \<and>
            distinct (map (enrollment_key \<circ> snd) rows))"
proof -
  obtain g where se: "student_enrollments (map fst student_rows) (map course_id course_rows) (rng m)
      = (Inr enrollments, g)"
    using assms(7) by (cases "student_enrollments (map fst student_rows) (map course_id course_rows) (rng m)") simp
  have keys: "distinct (map enrollment_key enrollments)"
    by (rule student_enrollments_keys [OF se assms(5,6)])
  from generate_enrollments_fresh [OF assms(1,2,3,4) se assms(5,6)] obtain rows where
    r: "generate_enrollments m =
          (Done, m\<lparr>rng := g, conn := Some (c\<lparr>view := (view c)\<lparr>Enrollments := Some rows\<rparr>,
                                               in_txn := True\<rparr>)\<rparr>)"
       "map snd rows = enrollments" by blast
  let ?c' = "c\<lparr>view := (view c)\<lparr>Enrollments := Some rows\<rparr>, in_txn := True\<rparr>"
  let ?m' = "m\<lparr>rng := g, conn := Some ?c'\<rparr>"
  have "is_open c" using assms(1) by (simp add: cursor_Inr)
  then have cur: "cursor ?m' = Inr ?c'" by (simp add: cursor_Inr)
  have "distinct (map (enrollment_key \<circ> snd) rows)"
    using keys r(2) by (metis map_map)
  then have "generate_enrollments m = (Done, ?m') \<and> cursor ?m' = Inr ?c' \<and>
      Enrollments (view ?c') = Some rows \<and> map snd rows = enrollments \<and>
      distinct (map (enrollment_key \<circ> snd) rows)"
    using r cur by simp
  then show ?thesis using keys by blast
qed

theorem enrollment_keys_unique_witness:
  "fst (student_enrollments [1, 2] [''PHY101'', ''PHY102'', ''PHY103'', ''PHY104'', ''PHY105''] (\<lambda>i. 5))
     = Inr (map (example_enrollment 1) [''PHY101'', ''PHY102'', ''PHY103'', ''PHY104'', ''PHY105'']
            @ map (example_enrollment 2) [''PHY101'', ''PHY102'', ''PHY103'', ''PHY104'', ''PHY105'']) \<and>
   distinct (map enrollment_key
     (map (example_enrollment 1) [''PHY101'', ''PHY102'', ''PHY103'', ''PHY104'', ''PHY105'']
      @ map (example_enrollment 2) [''PHY101'', ''PHY102'', ''PHY103'', ''PHY104'', ''PHY105''])) \<and>
   fst (generate_enrollments seeded_manager) = Done"
proof -
  have e: "fst (student_enrollments
        (map fst [(1::int, example_student ''ann.lee@university.edu''), (2, example_student ''ann.lee1@university.edu'')])
        (map course_id (map example_course [''PHY101'', ''PHY102'', ''PHY103'', ''PHY104'', ''PHY105'']))
        (rng seeded_manager))
     = Inr (map (example_enrollment 1) [''PHY101'', ''PHY102'', ''PHY103'', ''PHY104'', ''PHY105'']
            @ map (example_enrollment 2) [''PHY101'', ''PHY102'', ''PHY103'', ''PHY104'', ''PHY105''])"
    unfolding seeded_keys(3,4) seeded_state(2) by (rule example_enrollments)
  note t = enrollment_keys_unique [OF seeded_state(1,3,4,5) seeded_keys(1,2) e]
  from t have 1: "distinct (map enrollment_key
     (map (example_enrollment 1) [''PHY101'', ''PHY102'', ''PHY103'', ''PHY104'', ''PHY105'']
      @ map (example_enrollment 2) [''PHY101'', ''PHY102'', ''PHY103'', ''PHY104'', ''PHY105'']))"
    by (rule conjunct1)
  from t have 2: "fst (generate_enrollments seeded_manager) = Done"
    by auto
  show ?thesis using example_enrollments 1 2 by (intro conjI)
qed

text \<open>
  C4. With at least five courses in the table, \<^verbatim>\<open>generate_enrollments\<close> returns
  normally and gives every student between 3 and 5 rows, with pairwise distinct course
  ids taken from the course table; the table then holds between \<open>3N\<close> and \<open>5N\<close> rows
  for \<open>N\<close> students.
\<close>

theorem enrollments_per_student:
  assumes "cursor m = Inr c"
      and "Students (view c) = Some student_rows" and "Courses (view c) = Some course_rows"
      and "Enrollments (view c) = Some []"
      and "distinct (map fst student_rows)" and "distinct (map course_id course_rows)"
      and "5 \<le> length course_rows"
  shows "\<exists>m' c' rows. generate_enrollments m = (Done, m') \<and> cursor m' = Inr c' \<and>
           Enrollments (view c') = Some rows \<and>
           (\<forall>sid \<in> set (map fst student_rows).
              3 \<le> length [r \<leftarrow> rows. enr_student_id (snd r) = sid] \<and>
              length [r \<leftarrow> rows. enr_student_id (snd r) = sid] \<le> 5 \<and>
              distinct (map (enr_course_id \<circ> snd) [r \<leftarrow> rows. enr_student_id (snd r) = sid]) \<and>
              set (map (enr_course_id \<circ> snd) [r \<leftarrow> rows. enr_student_id (snd r) = sid])
                \<subseteq> set (map course_id course_rows)) \<and>
           3 * length student_rows \<le> length rows \<and> length rows \<le> 5 * length student_rows"
proof -
  from student_enrollments_total [of "map course_id course_rows" "map fst student_rows" "rng m"]
  obtain es g where se: "student_enrollments (map fst student_rows) (map course_id course_rows) (rng m)
      = (Inr es, g)"
    using assms(7) by auto
  from generate_enrollments_fresh [OF assms(1,2,3,4) se assms(5,6)] obtain rows where
    r: "generate_enrollments m =
          (Done, m\<lparr>rng := g, conn := Some (c\<lparr>view := (view c)\<lparr>Enrollments := Some rows\<rparr>,
                                               in_txn := True\<rparr>)\<rparr>)"
       "map snd rows = es" by blast
  let ?c' = "c\<lparr>view := (view c)\<lparr>Enrollments := Some rows\<rparr>, in_txn := True\<rparr>"
  let ?m' = "m\<lparr>rng := g, conn := Some ?c'\<rparr>"
  have "is_open c" using assms(1) by (simp add: cursor_Inr)
  then have cur: "cursor ?m' = Inr ?c'" by (simp add: cursor_Inr)
  have f: "map snd [r \<leftarrow> rows. enr_student_id (snd r) = sid] = [e \<leftarrow> es. enr_student_id e = sid]" for sid
    using map_snd_filter [of "\<lambda>e. enr_student_id e = sid" rows] r(2) by simp
  have len: "length [r \<leftarrow> rows. enr_student_id (snd r) = sid] = length [e \<leftarrow> es. enr_student_id e = sid]" for sid
    using f [of sid] by (metis length_map)
  have crs: "map (enr_course_id \<circ> snd) [r \<leftarrow> rows. enr_student_id (snd r) = sid]
      = map enr_course_id [e \<leftarrow> es. enr_student_id e = sid]" for sid
    using f [of sid] by (metis map_map)
  note per = student_enrollments_per_student [OF se assms(5,6)]
  have 1: "\<forall>sid \<in> set (map fst student_rows).
              3 \<le> length [r \<leftarrow> rows. enr_student_id (snd r) = sid] \<and>
              length [r \<leftarrow> rows. enr_student_id (snd r) = sid] \<le> 5 \<and>
              distinct (map (enr_course_id \<circ> snd) [r \<leftarrow> rows. enr_student_id (snd r) = sid]) \<and>
              set (map (enr_course_id \<circ> snd) [r \<leftarrow> rows. enr_student_id (snd r) = sid])
                \<subseteq> set (map course_id course_rows)"
    unfolding len crs using per by blast
  have "length rows = length es" using r(2) by (metis length_map)
  then have 2: "3 * length student_rows \<le> length rows \<and> length rows \<le> 5 * length student_rows"
    using student_enrollments_rows [OF se] by simp
  have "generate_enrollments m = (Done, ?m') \<and> cursor ?m' = Inr ?c' \<and>
      Enrollments (view ?c') = Some rows"
    using r cur by simp
  with 1 2 show ?thesis by blast
qed

theorem enrollments_per_student_witness:
  "\<exists>m' c' rows. generate_enrollments seeded_manager = (Done, m') \<and> cursor m' = Inr c' \<and>
      Enrollments (view c') = Some rows \<and>
      3 \<le> length [r \<leftarrow> rows. enr_student_id (snd r) = 1] \<and>
      length [r \<leftarrow> rows. enr_student_id (snd r) = 1] \<le> 5 \<and>
      distinct (map (enr_course_id \<circ> snd) [r \<leftarrow> rows. enr_student_id (snd r) = 1]) \<and>
      3 \<le> length [r \<leftarrow> rows. enr_student_id (snd r) = 2] \<and>
      length [r \<leftarrow> rows. enr_student_id (snd r) = 2] \<le> 5 \<and>
      distinct (map (enr_course_id \<circ> snd) [r \<leftarrow> rows. enr_student_id (snd r) = 2]) \<and>
      6 \<le> length rows \<and> length rows \<le> 10"
proof -
  have five: "5 \<le> length (map example_course [''PHY101'', ''PHY102'', ''PHY103'', ''PHY104'', ''PHY105''])"
    by simp
  from enrollments_per_student [OF seeded_state(1,3,4,5) seeded_keys(1,2) five]
  obtain m' c' rows where
    r: "generate_enrollments seeded_manager = (Done, m')" "cursor m' = Inr c'"
       "Enrollments (view c') = Some rows"
       "\<forall>sid \<in> set (map fst [(1::int, example_student ''ann.lee@university.edu''),
                       (2, example_student ''ann.lee1@university.edu'')]).
              3 \<le> length [r \<leftarrow> rows. enr_student_id (snd r) = sid] \<and>
              length [r \<leftarrow> rows. enr_student_id (snd r) = sid] \<le> 5 \<and>
              distinct (map (enr_course_id \<circ> snd) [r \<leftarrow> rows. enr_student_id (snd r) = sid]) \<and>
              set (map (enr_course_id \<circ> snd) [r \<leftarrow> rows. enr_student_id (snd r) = sid])
                \<subseteq> set (map course_id (map example_course [''PHY101'', ''PHY102'', ''PHY103'', ''PHY104'', ''PHY105'']))"
       "3 * length [(1::int, example_student ''ann.lee@university.edu''),
                       (2, example_student ''ann.lee1@university.edu'')] \<le> length rows"
       "length rows \<le> 5 * length [(1::int, example_student ''ann.lee@university.edu''),
                       (2, example_student ''ann.lee1@university.edu'')]"
    by blast
  from r(4) have a: "3 \<le> length [r \<leftarrow> rows. enr_student_id (snd r) = 1] \<and>
      length [r \<leftarrow> rows. enr_student_id (snd r) = 1] \<le> 5 \<and>
      distinct (map (enr_course_id \<circ> snd) [r \<leftarrow> rows. enr_student_id (snd r) = 1])"
    by simp
  from r(4) have b: "3 \<le> length [r \<leftarrow> rows. enr_student_id (snd r) = 2] \<and>
      length [r \<leftarrow> rows. enr_student_id (snd r) = 2] \<le> 5 \<and>
      distinct (map (enr_course_id \<circ> snd) [r \<leftarrow> rows. enr_student_id (snd r) = 2])"
    by simp
  have c: "6 \<le> length rows \<and> length rows \<le> 10" using r(5,6) by simp
  show ?thesis using r(1,2,3) a b c by blast
qed

text \<open>
  C6. Every row that \<^verbatim>\<open>generate_enrollments\<close> adds has a semester among Fall,
  Spring and Summer, an academic year from 2018 to 2023 and a grade between 2.0 and 4.0
  that is a whole number of hundredths.
\<close>

theorem enrollment_values_in_range:
  assumes "fst (generate_enrollments m) = Done"
      and "cursor m = Inr c" and "Enrollments (view c) = Some rows0"
  shows "\<exists>c' new. cursor (snd (generate_enrollments m)) = Inr c' \<and>
           Enrollments (view c') = Some (rows0 @ new) \<and>
           (\<forall>r \<in> set new.
              semester (snd r) \<in> {''Fall'', ''Spring'', ''Summer''} \<and>
              2018 \<le> academic_year (snd r) \<and> academic_year (snd r) \<le> 2023 \<and>
              2 \<le> grade (snd r) \<and> grade (snd r) \<le> 4 \<and>
              (\<exists>k. grade (snd r) = of_int k / 100))"
proof -
  have d: "generate_enrollments m = (Done, snd (generate_enrollments m))"
    using assms(1) by (metis prod.collapse)
  from d assms(2,3) obtain srows crows es g new where
    p0: "Students (view c) = Some srows" "Courses (view c) = Some crows" and
    p: "student_enrollments (map fst srows) (map course_id crows) (rng m) = (Inr es, g)"
       "snd (generate_enrollments m) =
          m\<lparr>rng := g, conn := Some (c\<lparr>view := (view c)\<lparr>Enrollments := Some (rows0 @ new)\<rparr>,
                                        in_txn := True\<rparr>)\<rparr>"
       "map snd new = es" by (rule generate_enrollments_Done)
  let ?c' = "c\<lparr>view := (view c)\<lparr>Enrollments := Some (rows0 @ new)\<rparr>, in_txn := True\<rparr>"
  have "is_open c" using assms(2) by (simp add: cursor_Inr)
  then have cur: "cursor (snd (generate_enrollments m)) = Inr ?c'"
    unfolding p(2) by (simp add: cursor_Inr)
  have ok: "\<forall>r \<in> set new. enrollment_ok (snd r)"
  proof
    fix r assume "r \<in> set new"
    then have "snd r \<in> set es" unfolding p(3) [symmetric] by simp
    then show "enrollment_ok (snd r)" using student_enrollments_rows [OF p(1)] by simp
  qed
  have "\<forall>r \<in> set new.
              semester (snd r) \<in> {''Fall'', ''Spring'', ''Summer''} \<and>
              2018 \<le> academic_year (snd r) \<and> academic_year (snd r) \<le> 2023 \<and>
              2 \<le> grade (snd r) \<and> grade (snd r) \<le> 4 \<and>
              (\<exists>k. grade (snd r) = of_int k / 100)"
    using ok enrollment_ok_ranges by blast
  then have "cursor (snd (generate_enrollments m)) = Inr ?c' \<and>
           Enrollments (view ?c') = Some (rows0 @ new) \<and>
           (\<forall>r \<in> set new.
              semester (snd r) \<in> {''Fall'', ''Spring'', ''Summer''} \<and>
              2018 \<le> academic_year (snd r) \<and> academic_year (snd r) \<le> 2023 \<and>
              2 \<le> grade (snd r) \<and> grade (snd r) \<le> 4 \<and>
              (\<exists>k. grade (snd r) = of_int k / 100))"
    using cur by simp
  then show ?thesis by blast
qed

theorem enrollment_values_in_range_witness:
  "\<exists>c' new. cursor (snd (generate_enrollments seeded_manager)) = Inr c' \<and>
      Enrollments (view c') = Some new \<and> 6 \<le> length new \<and>
      list_all (\<lambda>r. semester (snd r) \<in> {''Fall'', ''Spring'', ''Summer''} \<and>
                  2018 \<le> academic_year (snd r) \<and> academic_year (snd r) \<le> 2023 \<and>
                  2 \<le> grade (snd r) \<and> grade (snd r) \<le> 4) new"
proof -
  have five: "5 \<le> length (map example_course [''PHY101'', ''PHY102'', ''PHY103'', ''PHY104'', ''PHY105''])"
    by simp
  from student_enrollments_total [OF five [folded length_map [of course_id]]]
  obtain es g where se: "student_enrollments
        (map fst [(1::int, example_student ''ann.lee@university.edu''), (2, example_student ''ann.lee1@university.edu'')])
        (map course_id (map example_course [''PHY101'', ''PHY102'', ''PHY103'', ''PHY104'', ''PHY105'']))
        (rng seeded_manager) = (Inr es, g)"
    by blast
  from generate_enrollments_fresh [OF seeded_state(1,3,4,5) se seeded_keys(1,2)]
  obtain rows where
    rows: "generate_enrollments seeded_manager =
      (Done, seeded_manager\<lparr>rng := g, conn := Some (seeded_connection\<lparr>view := (view seeded_connection)\<lparr>Enrollments := Some rows\<rparr>, in_txn := True\<rparr>)\<rparr>)"
    and ms: "map snd rows = es"
    by blast
  have "length rows = length es" using ms by (metis length_map)
  moreover have "6 \<le> length es" using student_enrollments_rows [OF se] by simp
  ultimately have len: "6 \<le> length rows" by simp
  have d: "fst (generate_enrollments seeded_manager) = Done" using rows by simp
  from enrollment_values_in_range [OF d seeded_state(1,5)]
  obtain c' new where
    r: "cursor (snd (generate_enrollments seeded_manager)) = Inr c'"
       "Enrollments (view c') = Some ([] @ new)"
       "\<forall>r \<in> set new.
              semester (snd r) \<in> {''Fall'', ''Spring'', ''Summer''} \<and>
              2018 \<le> academic_year (snd r) \<and> academic_year (snd r) \<le> 2023 \<and>
              2 \<le> grade (snd r) \<and> grade (snd r) \<le> 4 \<and>
              (\<exists>k. grade (snd r) = of_int k / 100)"
    by blast
  have "c' = seeded_connection\<lparr>view := (view seeded_connection)\<lparr>Enrollments := Some rows\<rparr>, in_txn := True\<rparr>"
    using r(1) rows by (simp add: cursor_Inr)
  then have "new = rows" using r(2) by simp
  then have len: "6 \<le> length new" using len by simp
  have "list_all (\<lambda>r. semester (snd r) \<in> {''Fall'', ''Spring'', ''Summer''} \<and>
                  2018 \<le> academic_year (snd r) \<and> academic_year (snd r) \<le> 2023 \<and>
                  2 \<le> grade (snd r) \<and> grade (snd r) \<le> 4) new"
    using r(3) by (simp add: list_all_iff)
  with r(1,2) len show ?thesis by auto
qed

end
